theory Spec2Isabelle
  imports Main "HOL-Library.Word" "HOL-Library.Signed_Division"
begin

unbundle bit_operations_syntax

section \<open>JfrMemorySpace: the buffer pool of the flight recorder's storage\<close>

text \<open>
  A shallow embedding of \<^verbatim>\<open>jfrMemorySpace.inline.hpp\<close>. The template functions
  become HOL functions over an explicit state. A pointer to a buffer is an address; the
  objects live in a store (\<open>heap\<close>) from addresses to buffers, so that two lists can
  hold the same pointer and a freed buffer can still be named. \<^verbatim>\<open>NULL\<close> is
  \<open>None\<close>. Every function returns \<open>error + result\<close>: a failed \<^verbatim>\<open>assert\<close> of a
  debug build, the use of a pointer that is not live, and a loop that never ends are
  values of \<open>error\<close>. \<^verbatim>\<open>size_t\<close> and \<^verbatim>\<open>u8\<close> are 64-bit words (LP64), pointers
  into byte memory are natural numbers, and a pointer sum that the code compares wraps
  around at \<open>2 ^ 64\<close>. The destructor, the iteration functions,
  \<^verbatim>\<open>ReleaseOp\<close> and the \<^verbatim>\<open>mspace_release_*\<close> wrappers are not embedded: no
  property below is about them.
\<close>

subsection \<open>Types\<close>

type_synonym size_t = "64 word"
type_synonym addr = nat
type_synonym thread = nat

datatype error =
    assertion_failed nat  \<comment> \<open>the source line of the \<^verbatim>\<open>assert\<close> that failed\<close>
  | invalid_pointer       \<comment> \<open>a pointer to no live buffer was dereferenced\<close>
  | nontermination        \<comment> \<open>a loop that never leaves\<close>

text \<open>
  Modelled from the spec: the buffer type \<^verbatim>\<open>T\<close> (template parameter, not defined in
  this file). The spec's data model gives it a capacity, the cursor bounds \<open>start\<close>,
  \<open>pos\<close>, \<open>end\<close>, an owner (\<open>identity\<close>) and the flags \<open>transient\<close>, \<open>lease\<close> and
  \<open>retired\<close>.
\<close>

record buffer =
  header_size :: size_t
  capacity :: size_t
  buf_start :: nat
  buf_pos :: nat
  buf_end :: nat
  identity :: "thread option"
  transient :: bool
  lease :: bool
  retired :: bool

text \<open>The fields of \<^verbatim>\<open>JfrMemorySpace\<close>, and the lock its \<^verbatim>\<open>lock()\<close>,
  \<^verbatim>\<open>unlock()\<close> and \<^verbatim>\<open>is_locked()\<close> work on. The two intrusive lists are
  sequences of buffer pointers, head first.\<close>

record mspace =
  free_list :: "addr list"
  full_list :: "addr list"
  min_elem_size :: size_t
  limit_size :: size_t
  cache_count :: size_t
  locked :: bool

text \<open>
  What lives outside a pool: the C heap with its live buffers, the next address the heap
  hands out, the outcomes of the coming calls of the heap primitive (\<open>False\<close>: the
  call returns \<^verbatim>\<open>NULL\<close>; a call beyond the script succeeds), the function-local
  \<^verbatim>\<open>static const size_t min_elem_size\<close> of \<^verbatim>\<open>size_adjustment\<close>, which is
  \<open>None\<close> until the first call initialises it, and the bytes of memory.
\<close>

record globals =
  heap :: "addr \<rightharpoonup> buffer"
  next_addr :: addr
  alloc_script :: "bool list"
  size_adjustment_static :: "size_t option"
  memory :: "nat \<Rightarrow> 8 word"

text \<open>
  The parameters of the embedding: the build (\<open>ASSERT\<close> is the debug build, where
  \<^verbatim>\<open>assert\<close> is checked), the page size, the sizes of the two object types, whether
  \<^verbatim>\<open>T::initialize\<close> succeeds, the pool's cache policy
  \<^verbatim>\<open>should_populate_cache()\<close>, the retrieval policy behind \<^verbatim>\<open>mspace->get\<close>
  (the template parameter \<^verbatim>\<open>RetrievalType\<close>), the function
  \<^verbatim>\<open>mspace_get_free_lease\<close> that \<^verbatim>\<open>mspace_get_lease\<close> calls and this file
  does not define, and the thread that runs the code (\<^verbatim>\<open>acquired_by_self\<close>
  compares with it).
\<close>

record env =
  ASSERT :: bool
  vm_page_size :: "32 word"
  sizeof_T :: size_t
  sizeof_Mspace :: size_t
  T_initialize_ok :: "size_t \<Rightarrow> size_t \<Rightarrow> bool"
  should_populate_cache :: "mspace \<Rightarrow> bool"
  get :: "size_t \<Rightarrow> thread \<Rightarrow> mspace \<Rightarrow> globals \<Rightarrow> error + (addr option \<times> globals)"
  mspace_get_free_lease ::
    "size_t \<Rightarrow> mspace \<Rightarrow> thread \<Rightarrow> globals \<Rightarrow> error + (addr option \<times> mspace \<times> globals)"
  current_thread :: thread

subsection \<open>Errors, assertions, pointers\<close>

definition and_then :: "error + 'a \<Rightarrow> ('a \<Rightarrow> error + 'b) \<Rightarrow> error + 'b" where
  "and_then r k = (case r of Inl err \<Rightarrow> Inl err | Inr x \<Rightarrow> k x)"

text \<open>\<^verbatim>\<open>assert(cond, ...)\<close> at a line of the source, followed by the rest of the
  function: checked in the debug build only.\<close>

definition assert_at :: "bool \<Rightarrow> nat \<Rightarrow> bool \<Rightarrow> error + 'a \<Rightarrow> error + 'a" where
  "assert_at dbg line cond k = (if dbg \<and> \<not> cond then Inl (assertion_failed line) else k)"

definition deref :: "globals \<Rightarrow> addr \<Rightarrow> error + buffer" where
  "deref g t = (case heap g t of None \<Rightarrow> Inl invalid_pointer | Some b \<Rightarrow> Inr b)"

text \<open>An assertion on the buffer behind a pointer: the debug build reads the buffer.\<close>

definition assert_buf ::
  "bool \<Rightarrow> nat \<Rightarrow> globals \<Rightarrow> addr \<Rightarrow> (buffer \<Rightarrow> bool) \<Rightarrow> error + 'a \<Rightarrow> error + 'a" where
  "assert_buf dbg line g t cond k =
     (if dbg then
        (case heap g t of
           None \<Rightarrow> Inl invalid_pointer
         | Some b \<Rightarrow> if cond b then k else Inl (assertion_failed line))
      else k)"

definition modify :: "addr \<Rightarrow> (buffer \<Rightarrow> buffer) \<Rightarrow> globals \<Rightarrow> error + globals" where
  "modify t f g =
     (case heap g t of
        None \<Rightarrow> Inl invalid_pointer
      | Some b \<Rightarrow> Inr (g\<lparr>heap := (heap g)(t \<mapsto> f b)\<rparr>))"

subsection \<open>The collaborators\<close>

text \<open>
  Modelled from the spec: the heap primitive \<^verbatim>\<open>JfrCHeapObj::new_array\<close> and
  \<^verbatim>\<open>JfrCHeapObj::free\<close> (\<open>alloc(bytes) -> ptr?\<close>, \<open>free(ptr, bytes)\<close>). A call
  takes its outcome from the script; a successful call returns the next address and moves
  it past the block.
\<close>

definition new_array :: "size_t \<Rightarrow> globals \<Rightarrow> addr option \<times> globals" where
  "new_array n g =
     (case alloc_script g of
        [] \<Rightarrow> (Some (next_addr g), g\<lparr>next_addr := next_addr g + max 1 (unat n)\<rparr>)
      | ok # rest \<Rightarrow>
          if ok
          then (Some (next_addr g),
                g\<lparr>next_addr := next_addr g + max 1 (unat n), alloc_script := rest\<rparr>)
          else (None, g\<lparr>alloc_script := rest\<rparr>))"

definition cheap_free :: "addr \<Rightarrow> size_t \<Rightarrow> globals \<Rightarrow> globals" where
  "cheap_free t n g = g\<lparr>heap := (heap g)(t := None)\<rparr>"

text \<open>
  Modelled from the spec: the buffer operations the pool requires of \<^verbatim>\<open>T\<close>.
  \<^verbatim>\<open>new (allocation) T\<close> followed by \<^verbatim>\<open>initialize(header_size, size)\<close> gives a
  buffer at address \<open>t\<close> whose payload follows the header, with the cursor at the start,
  no owner and no flag set.
\<close>

definition T_initialize :: "addr \<Rightarrow> size_t \<Rightarrow> size_t \<Rightarrow> buffer" where
  "T_initialize t hdr sz =
     \<lparr>header_size = hdr, capacity = sz,
      buf_start = t + unat hdr, buf_pos = t + unat hdr, buf_end = t + unat hdr + unat sz,
      identity = None, transient = False, lease = False, retired = False\<rparr>"

definition total_size :: "buffer \<Rightarrow> size_t" where
  "total_size b = header_size b + capacity b"

definition empty :: "buffer \<Rightarrow> bool" where
  "empty b = (buf_pos b = buf_start b)"

text \<open>\<^verbatim>\<open>end() - pos()\<close>, a pointer difference read as a \<^verbatim>\<open>size_t\<close>.\<close>

definition free_size :: "buffer \<Rightarrow> size_t" where
  "free_size b = word_of_int (int (buf_end b) - int (buf_pos b))"

definition acquire :: "thread \<Rightarrow> buffer \<Rightarrow> buffer" where
  "acquire thr b = b\<lparr>identity := Some thr\<rparr>"

definition acquired_by_self :: "env \<Rightarrow> buffer \<Rightarrow> bool" where
  "acquired_by_self e b = (identity b = Some (current_thread e))"

definition set_transient :: "buffer \<Rightarrow> buffer" where
  "set_transient b = b\<lparr>transient := True\<rparr>"

definition set_lease :: "buffer \<Rightarrow> buffer" where
  "set_lease b = b\<lparr>lease := True\<rparr>"

text \<open>
  Modelled from the spec: the list operations (\<^verbatim>\<open>JfrDoublyLinkedList\<close> is not in
  this file): prepend at the head, removal of a member, membership test. A node is linked
  at most once, so unlinking it leaves no occurrence of it.
\<close>

definition in_list :: "addr \<Rightarrow> addr list \<Rightarrow> bool" where
  "in_list t xs = (t \<in> set xs)"

definition prepend :: "addr \<Rightarrow> addr list \<Rightarrow> addr list" where
  "prepend t xs = t # xs"

definition remove :: "addr \<Rightarrow> addr list \<Rightarrow> addr list" where
  "remove t xs = removeAll t xs"

text \<open>The members of \<^verbatim>\<open>JfrMemorySpace\<close> that the class declaration defines inline.\<close>

definition JfrMemorySpace :: "size_t \<Rightarrow> size_t \<Rightarrow> size_t \<Rightarrow> mspace" where
  "JfrMemorySpace min_elem_sz limit_sz cache_cnt =
     \<lparr>free_list = [], full_list = [], min_elem_size = min_elem_sz, limit_size = limit_sz,
      cache_count = cache_cnt, locked = False\<rparr>"

definition insert_free_head :: "addr \<Rightarrow> mspace \<Rightarrow> mspace" where
  "insert_free_head t m = m\<lparr>free_list := prepend t (free_list m)\<rparr>"

definition insert_full_head :: "addr \<Rightarrow> mspace \<Rightarrow> mspace" where
  "insert_full_head t m = m\<lparr>full_list := prepend t (full_list m)\<rparr>"

definition remove_free :: "addr \<Rightarrow> mspace \<Rightarrow> mspace" where
  "remove_free t m = m\<lparr>free_list := remove t (free_list m)\<rparr>"

definition remove_full :: "addr \<Rightarrow> mspace \<Rightarrow> mspace" where
  "remove_full t m = m\<lparr>full_list := remove t (full_list m)\<rparr>"

definition is_locked :: "mspace \<Rightarrow> bool" where
  "is_locked m = locked m"

definition lock :: "mspace \<Rightarrow> mspace" where
  "lock m = m\<lparr>locked := True\<rparr>"

definition unlock :: "mspace \<Rightarrow> mspace" where
  "unlock m = m\<lparr>locked := False\<rparr>"

subsection \<open>\<^verbatim>\<open>align_allocation_size\<close>\<close>

text \<open>\<^verbatim>\<open>static_cast<size_t>(min_intx)\<close>. The constant \<^verbatim>\<open>min_intx\<close> is declared
  outside this file; it is the least \<^verbatim>\<open>intx\<close>, whose bit pattern read as a
  \<^verbatim>\<open>size_t\<close> is \<open>2 ^ 63\<close>. The spec calls it the maximum representable allocation
  size.\<close>

definition min_intx :: size_t where
  "min_intx = 2 ^ 63"

text \<open>\<^verbatim>\<open>(int)x % os::vm_page_size() == 0\<close>: the size truncated to an \<^verbatim>\<open>int\<close>, and
  C's remainder.\<close>

definition int_page_aligned :: "env \<Rightarrow> size_t \<Rightarrow> bool" where
  "int_page_aligned e x = (sint (ucast x :: 32 word) smod sint (vm_page_size e) = 0)"

text \<open>\<^verbatim>\<open>x % os::vm_page_size() == 0\<close> on \<^verbatim>\<open>size_t\<close>: the page size converted to
  \<^verbatim>\<open>size_t\<close>, and the unsigned remainder.\<close>

definition page_aligned :: "env \<Rightarrow> size_t \<Rightarrow> bool" where
  "page_aligned e x = (x mod (scast (vm_page_size e) :: size_t) = 0)"

text \<open>The loop \<^verbatim>\<open>while (requested_size > alloc_size_bytes) alloc_size_bytes <<= 1;\<close>
  on 64-bit unsigned values. It may not end: not returning is \<open>None\<close>.\<close>

partial_function (option) align_loop :: "size_t \<Rightarrow> size_t \<Rightarrow> size_t option" where
  "align_loop requested_size alloc_size_bytes =
     (if requested_size > alloc_size_bytes
      then align_loop requested_size (push_bit 1 alloc_size_bytes)
      else Some alloc_size_bytes)"

declare align_loop.simps [code]

definition align_allocation_size :: "env \<Rightarrow> size_t \<Rightarrow> size_t \<Rightarrow> error + size_t" where
  "align_allocation_size e requested_size min_elem_sz =
     assert_at (ASSERT e) 75 (int_page_aligned e min_elem_sz)
       (if requested_size > min_intx
        then assert_at (ASSERT e) 77 False (Inr 0)
        else (case align_loop requested_size min_elem_sz of
                None \<Rightarrow> Inl nontermination
              | Some alloc_size_bytes \<Rightarrow>
                  assert_at (ASSERT e) 84 (int_page_aligned e alloc_size_bytes)
                    (assert_at (ASSERT e) 85 (alloc_size_bytes \<le> min_intx)
                       (Inr alloc_size_bytes))))"

subsection \<open>\<^verbatim>\<open>JfrMemorySpace::allocate\<close>, \<^verbatim>\<open>deallocate\<close>, \<^verbatim>\<open>release_full\<close>, \<^verbatim>\<open>release_free\<close>\<close>

definition allocate :: "env \<Rightarrow> size_t \<Rightarrow> mspace \<Rightarrow> globals \<Rightarrow> error + (addr option \<times> globals)" where
  "allocate e sz m g =
     and_then (align_allocation_size e sz (min_elem_size m)) (\<lambda>aligned_size_bytes.
       if sz \<noteq> 0 \<and> aligned_size_bytes = 0 then Inr (None, g)
       else (case new_array (aligned_size_bytes + sizeof_T e) g of
               (None, g1) \<Rightarrow> Inr (None, g1)
             | (Some t, g1) \<Rightarrow>
                 if \<not> T_initialize_ok e (sizeof_T e) aligned_size_bytes
                 then Inr (None, cheap_free t (aligned_size_bytes + sizeof_T e) g1)
                 else Inr (Some t,
                   g1\<lparr>heap := (heap g1)(t \<mapsto> T_initialize t (sizeof_T e) aligned_size_bytes)\<rparr>)))"

definition deallocate :: "env \<Rightarrow> addr \<Rightarrow> mspace \<Rightarrow> globals \<Rightarrow> error + globals" where
  "deallocate e t m g =
     assert_at (ASSERT e) 111 (\<not> in_list t (free_list m))
       (assert_at (ASSERT e) 112 (\<not> in_list t (full_list m))
          (and_then (deref g t) (\<lambda>b. Inr (cheap_free t (total_size b) g))))"

definition release_full :: "env \<Rightarrow> addr \<Rightarrow> mspace \<Rightarrow> globals \<Rightarrow> error + (mspace \<times> globals)" where
  "release_full e t m g =
     assert_at (ASSERT e) 119 (is_locked m)
       (assert_at (ASSERT e) 121 (in_list t (full_list m))
          (let m1 = remove_full t m in
           assert_at (ASSERT e) 123 (\<not> in_list t (full_list m1))
             (and_then (deref g t) (\<lambda>b.
                if transient b
                then and_then (deallocate e t m1 g) (\<lambda>g1. Inr (m1, g1))
                else
                  assert_at (ASSERT e) 128 (empty b)
                    (assert_at (ASSERT e) 129 (\<not> retired b)
                       (assert_at (ASSERT e) 130 (identity b = None)
                          (if should_populate_cache e m1
                           then assert_at (ASSERT e) 132 (\<not> in_list t (free_list m1))
                                  (Inr (insert_free_head t m1, g))
                           else and_then (deallocate e t m1 g) (\<lambda>g1. Inr (m1, g1)))))))))"

definition release_free :: "env \<Rightarrow> addr \<Rightarrow> mspace \<Rightarrow> globals \<Rightarrow> error + (mspace \<times> globals)" where
  "release_free e t m g =
     assert_at (ASSERT e) 141 (is_locked m)
       (assert_at (ASSERT e) 143 (in_list t (free_list m))
          (and_then (deref g t) (\<lambda>b.
             if transient b
             then (let m1 = remove_free t m in
                   assert_at (ASSERT e) 146 (\<not> in_list t (free_list m1))
                     (and_then (deallocate e t m1 g) (\<lambda>g1. Inr (m1, g1))))
             else
               assert_at (ASSERT e) 150 (empty b)
                 (assert_at (ASSERT e) 151 (\<not> retired b)
                    (assert_at (ASSERT e) 152 (identity b = None)
                       (if \<not> should_populate_cache e m
                        then (let m1 = remove_free t m in
                              assert_at (ASSERT e) 155 (\<not> in_list t (free_list m1))
                                (and_then (deallocate e t m1 g) (\<lambda>g1. Inr (m1, g1))))
                        else Inr (m, g)))))))"

subsection \<open>\<^verbatim>\<open>JfrMemorySpace::initialize\<close> and \<^verbatim>\<open>create_mspace\<close>\<close>

text \<open>The loop \<^verbatim>\<open>for (size_t i = 0; i < _cache_count; ++i)\<close>, from counter \<open>i\<close> on,
  with the assertion and the \<^verbatim>\<open>return true\<close> that follow it.\<close>

function initialize_loop ::
  "env \<Rightarrow> size_t \<Rightarrow> mspace \<Rightarrow> globals \<Rightarrow> error + (bool \<times> mspace \<times> globals)" where
  "initialize_loop e i m g =
     (if i < cache_count m then
        (case allocate e (min_elem_size m) m g of
           Inl err \<Rightarrow> Inl err
         | Inr (None, g1) \<Rightarrow> Inr (False, m, g1)
         | Inr (Some t, g1) \<Rightarrow> initialize_loop e (i + 1) (insert_free_head t m) g1)
      else assert_at (ASSERT e) 69 (word_of_nat (length (free_list m)) = cache_count m)
             (Inr (True, m, g)))"
  by pat_completeness auto
termination
proof (relation "measure (\<lambda>(e, i, m, g). unat (cache_count m) - unat i)")
  fix e :: env and i :: size_t and m :: mspace and t :: addr
  assume "i < cache_count m"
  then have less: "unat i < unat (cache_count m)"
    by (simp add: word_less_nat_alt)
  moreover have "unat (cache_count m) < 2 ^ 64"
    using unsigned_less [of "cache_count m"] by simp
  ultimately have "Suc (unat i) < 2 ^ 64"
    by simp
  then have "unat (i + 1) = Suc (unat i)"
    by (simp add: unat_word_ariths)
  with less show "((e, i + 1, insert_free_head t m, g1), (e, i, m, g))
      \<in> measure (\<lambda>(e, i, m, g). unat (cache_count m) - unat i)" for g g1 :: globals
    by (simp add: insert_free_head_def)
qed simp

declare initialize_loop.simps [simp del]

definition initialize :: "env \<Rightarrow> mspace \<Rightarrow> globals \<Rightarrow> error + (bool \<times> mspace \<times> globals)" where
  "initialize e m g =
     assert_at (ASSERT e) 59 (page_aligned e (min_elem_size m))
       (assert_at (ASSERT e) 60 (page_aligned e (limit_size m))
          (initialize_loop e 0 m g))"

text \<open>\<^verbatim>\<open>new Mspace(...)\<close> takes its memory from the same heap primitive and may
  return \<^verbatim>\<open>NULL\<close>. The result of \<^verbatim>\<open>mspace->initialize()\<close> is not read.\<close>

definition create_mspace ::
  "env \<Rightarrow> size_t \<Rightarrow> size_t \<Rightarrow> size_t \<Rightarrow> globals \<Rightarrow> error + (mspace option \<times> globals)" where
  "create_mspace e buffer_size limit cache_cnt g =
     (case new_array (sizeof_Mspace e) g of
        (None, g1) \<Rightarrow> Inr (None, g1)
      | (Some p, g1) \<Rightarrow>
          (case initialize e (JfrMemorySpace buffer_size limit cache_cnt) g1 of
             Inl err \<Rightarrow> Inl err
           | Inr (ok, m, g2) \<Rightarrow> Inr (Some m, g2)))"

subsection \<open>The free functions over a pool\<close>

text \<open>\<^verbatim>\<open>size_adjustment\<close> keeps \<^verbatim>\<open>mspace->min_elem_size()\<close> in a function-local
  static: the first call stores the value of its pool, every later call reads the stored
  value, whichever pool it is given.\<close>

definition size_adjustment :: "size_t \<Rightarrow> mspace \<Rightarrow> globals \<Rightarrow> size_t \<times> globals" where
  "size_adjustment sz m g =
     (let g1 = (case size_adjustment_static g of
                  None \<Rightarrow> g\<lparr>size_adjustment_static := Some (min_elem_size m)\<rparr>
                | Some c \<Rightarrow> g);
          min_elem_sz = (case size_adjustment_static g1 of
                           None \<Rightarrow> min_elem_size m
                         | Some c \<Rightarrow> c)
      in (if sz < min_elem_sz then min_elem_sz else sz, g1))"

definition mspace_allocate ::
  "env \<Rightarrow> size_t \<Rightarrow> mspace \<Rightarrow> globals \<Rightarrow> error + (addr option \<times> globals)" where
  "mspace_allocate e sz m g =
     (case size_adjustment sz m g of (sz1, g1) \<Rightarrow> allocate e sz1 m g1)"

definition mspace_allocate_acquired ::
  "env \<Rightarrow> size_t \<Rightarrow> mspace \<Rightarrow> thread \<Rightarrow> globals \<Rightarrow> error + (addr option \<times> globals)" where
  "mspace_allocate_acquired e sz m thr g =
     and_then (mspace_allocate e sz m g) (\<lambda>(r, g1).
       case r of
         None \<Rightarrow> Inr (None, g1)
       | Some t \<Rightarrow> and_then (modify t (acquire thr) g1) (\<lambda>g2. Inr (Some t, g2)))"

definition mspace_allocate_transient ::
  "env \<Rightarrow> size_t \<Rightarrow> mspace \<Rightarrow> thread \<Rightarrow> globals \<Rightarrow> error + (addr option \<times> globals)" where
  "mspace_allocate_transient e sz m thr g =
     and_then (mspace_allocate_acquired e sz m thr g) (\<lambda>(r, g1).
       case r of
         None \<Rightarrow> Inr (None, g1)
       | Some t \<Rightarrow>
           assert_buf (ASSERT e) 206 g1 t (acquired_by_self e)
             (and_then (modify t set_transient g1) (\<lambda>g2. Inr (Some t, g2))))"

definition mspace_allocate_transient_lease ::
  "env \<Rightarrow> size_t \<Rightarrow> mspace \<Rightarrow> thread \<Rightarrow> globals \<Rightarrow> error + (addr option \<times> globals)" where
  "mspace_allocate_transient_lease e sz m thr g =
     and_then (mspace_allocate_transient e sz m thr g) (\<lambda>(r, g1).
       case r of
         None \<Rightarrow> Inr (None, g1)
       | Some t \<Rightarrow>
           assert_buf (ASSERT e) 215 g1 t (acquired_by_self e)
             (assert_buf (ASSERT e) 216 g1 t transient
                (and_then (modify t set_lease g1) (\<lambda>g2. Inr (Some t, g2)))))"

definition mspace_allocate_to_full ::
  "env \<Rightarrow> size_t \<Rightarrow> mspace \<Rightarrow> thread \<Rightarrow> globals \<Rightarrow> error + (addr option \<times> mspace \<times> globals)" where
  "mspace_allocate_to_full e sz m thr g =
     assert_at (ASSERT e) 223 (is_locked m)
       (and_then (mspace_allocate_acquired e sz m thr g) (\<lambda>(r, g1).
          case r of
            None \<Rightarrow> Inr (None, m, g1)
          | Some t \<Rightarrow> Inr (Some t, insert_full_head t m, g1)))"

text \<open>A \<^verbatim>\<open>MspaceLock\<close> in scope: \<open>lock\<close> where it is constructed, \<open>unlock\<close> on
  every way out of the scope.\<close>

definition mspace_allocate_transient_to_full ::
  "env \<Rightarrow> size_t \<Rightarrow> mspace \<Rightarrow> thread \<Rightarrow> globals \<Rightarrow> error + (addr option \<times> mspace \<times> globals)" where
  "mspace_allocate_transient_to_full e sz m thr g =
     and_then (mspace_allocate_transient e sz m thr g) (\<lambda>(r, g1).
       case r of
         None \<Rightarrow> Inr (None, m, g1)
       | Some t \<Rightarrow> Inr (Some t, unlock (insert_full_head t (lock m)), g1))"

definition mspace_get_free ::
  "env \<Rightarrow> size_t \<Rightarrow> mspace \<Rightarrow> thread \<Rightarrow> globals \<Rightarrow> error + (addr option \<times> globals)" where
  "mspace_get_free e sz m thr g = get e sz thr m g"

text \<open>The loop \<^verbatim>\<open>for (size_t i = 0; i < retry_count; ++i)\<close> of
  \<^verbatim>\<open>mspace_get_free_with_retry\<close>, from counter \<open>i\<close> on, with the
  \<^verbatim>\<open>return NULL\<close> that follows it.\<close>

function mspace_get_free_with_retry_loop ::
  "env \<Rightarrow> size_t \<Rightarrow> mspace \<Rightarrow> size_t \<Rightarrow> thread \<Rightarrow> size_t \<Rightarrow> globals
    \<Rightarrow> error + (addr option \<times> globals)" where
  "mspace_get_free_with_retry_loop e sz m retry_count thr i g =
     (if i < retry_count then
        (case mspace_get_free e sz m thr g of
           Inl err \<Rightarrow> Inl err
         | Inr (Some t, g1) \<Rightarrow> Inr (Some t, g1)
         | Inr (None, g1) \<Rightarrow> mspace_get_free_with_retry_loop e sz m retry_count thr (i + 1) g1)
      else Inr (None, g))"
  by pat_completeness auto
termination
proof (relation "measure (\<lambda>(e, sz, m, retry_count, thr, i, g). unat retry_count - unat i)")
  fix retry_count i :: size_t
  assume "i < retry_count"
  then have less: "unat i < unat retry_count"
    by (simp add: word_less_nat_alt)
  moreover have "unat retry_count < 2 ^ 64"
    using unsigned_less [of retry_count] by simp
  ultimately have "Suc (unat i) < 2 ^ 64"
    by simp
  then have "unat (i + 1) = Suc (unat i)"
    by (simp add: unat_word_ariths)
  with less show "((e, sz, m, retry_count, thr, i + 1, g1), (e, sz, m, retry_count, thr, i, g))
      \<in> measure (\<lambda>(e, sz, m, retry_count, thr, i, g). unat retry_count - unat i)"
    for e :: env and sz :: size_t and m :: mspace and thr :: thread and g g1 :: globals
    by simp
qed simp

declare mspace_get_free_with_retry_loop.simps [simp del]

definition mspace_get_free_with_retry ::
  "env \<Rightarrow> size_t \<Rightarrow> mspace \<Rightarrow> size_t \<Rightarrow> thread \<Rightarrow> globals \<Rightarrow> error + (addr option \<times> globals)" where
  "mspace_get_free_with_retry e sz m retry_count thr g =
     assert_at (ASSERT e) 279 (sz \<le> min_elem_size m)
       (mspace_get_free_with_retry_loop e sz m retry_count thr 0 g)"

definition move_to_head ::
  "env \<Rightarrow> addr \<Rightarrow> addr list \<Rightarrow> addr list \<Rightarrow> error + (addr list \<times> addr list)" where
  "move_to_head e t from_list to_list =
     assert_at (ASSERT e) 381 (in_list t from_list)
       (Inr (remove t from_list, prepend t to_list))"

definition mspace_get_free_to_full ::
  "env \<Rightarrow> size_t \<Rightarrow> mspace \<Rightarrow> thread \<Rightarrow> globals \<Rightarrow> error + (addr option \<times> mspace \<times> globals)" where
  "mspace_get_free_to_full e sz m thr g =
     assert_at (ASSERT e) 300 (sz \<le> min_elem_size m)
       (assert_at (ASSERT e) 301 (is_locked m)
          (and_then (mspace_get_free e sz m thr g) (\<lambda>(r, g1).
             case r of
               None \<Rightarrow> Inr (None, m, g1)
             | Some t \<Rightarrow>
                 assert_buf (ASSERT e) 306 g1 t (acquired_by_self e)
                   (and_then (move_to_head e t (free_list m) (full_list m)) (\<lambda>(fr, fu).
                      Inr (Some t, m\<lparr>free_list := fr, full_list := fu\<rparr>, g1))))))"

definition mspace_get_to_full ::
  "env \<Rightarrow> size_t \<Rightarrow> mspace \<Rightarrow> thread \<Rightarrow> globals \<Rightarrow> error + (addr option \<times> mspace \<times> globals)" where
  "mspace_get_to_full e sz m thr g =
     (case size_adjustment sz m g of (sz1, g1) \<Rightarrow>
        (let m1 = lock m in
         and_then
           (and_then
              (if sz1 \<le> min_elem_size m1 then mspace_get_free_to_full e sz1 m1 thr g1
               else Inr (None, m1, g1))
              (\<lambda>(r, m2, g2).
                 case r of
                   Some t \<Rightarrow> Inr (Some t, m2, g2)
                 | None \<Rightarrow> mspace_allocate_to_full e sz1 m2 thr g2))
           (\<lambda>(r, m3, g3). Inr (r, unlock m3, g3))))"

definition mspace_get_free_lease_with_retry ::
  "env \<Rightarrow> size_t \<Rightarrow> mspace \<Rightarrow> size_t \<Rightarrow> thread \<Rightarrow> globals \<Rightarrow> error + (addr option \<times> globals)" where
  "mspace_get_free_lease_with_retry e sz m retry_count thr g =
     and_then (mspace_get_free_with_retry e sz m retry_count thr g) (\<lambda>(r, g1).
       case r of
         None \<Rightarrow> Inr (None, g1)
       | Some t \<Rightarrow> and_then (modify t set_lease g1) (\<lambda>g2. Inr (Some t, g2)))"

definition mspace_get_lease ::
  "env \<Rightarrow> size_t \<Rightarrow> mspace \<Rightarrow> thread \<Rightarrow> globals \<Rightarrow> error + (addr option \<times> mspace \<times> globals)" where
  "mspace_get_lease e sz m thr g =
     and_then (mspace_get_free_lease e sz m thr g) (\<lambda>(r, m1, g1).
       case r of
         Some t \<Rightarrow>
           assert_buf (ASSERT e) 338 g1 t (acquired_by_self e)
             (assert_buf (ASSERT e) 339 g1 t lease (Inr (Some t, m1, g1)))
       | None \<Rightarrow>
           and_then (mspace_allocate_transient_to_full e sz m1 thr g1) (\<lambda>(r2, m2, g2).
             case r2 of
               None \<Rightarrow> Inr (None, m2, g2)
             | Some t \<Rightarrow> and_then (modify t set_lease g2) (\<lambda>g3. Inr (Some t, m2, g3))))"

subsection \<open>\<^verbatim>\<open>migrate_outstanding_writes\<close>\<close>

text \<open>\<^verbatim>\<open>memcpy(dst, src, n)\<close> of the C library: the \<open>n\<close> bytes at \<open>src\<close> are read,
  then written from \<open>dst\<close> on. (For regions that overlap C leaves the result open; the
  model copies through the bytes read.)\<close>

definition read_bytes :: "nat \<Rightarrow> nat \<Rightarrow> (nat \<Rightarrow> 8 word) \<Rightarrow> 8 word list" where
  "read_bytes src n mem = map (\<lambda>i. mem (src + i)) [0..<n]"

fun write_bytes :: "nat \<Rightarrow> 8 word list \<Rightarrow> (nat \<Rightarrow> 8 word) \<Rightarrow> (nat \<Rightarrow> 8 word)" where
  "write_bytes dst [] mem = mem"
| "write_bytes dst (x # xs) mem = write_bytes (Suc dst) xs (mem(dst := x))"

definition memcpy :: "nat \<Rightarrow> nat \<Rightarrow> nat \<Rightarrow> (nat \<Rightarrow> 8 word) \<Rightarrow> (nat \<Rightarrow> 8 word)" where
  "memcpy dst src n mem = write_bytes dst (read_bytes src n mem) mem"

text \<open>The assertions of \<^verbatim>\<open>assert_migration_state\<close>. A pointer is a 64-bit address: the sum
  \<^verbatim>\<open>old->pos() + used\<close> of line 448 is taken modulo \<open>2 ^ 64\<close>, as the sum
  \<^verbatim>\<open>used + requested\<close> of line 449 is.\<close>

definition assert_migration_state ::
  "globals \<Rightarrow> addr \<Rightarrow> addr \<Rightarrow> size_t \<Rightarrow> size_t \<Rightarrow> error + unit" where
  "assert_migration_state g old new_buffer used requested =
     and_then (deref g old) (\<lambda>ob.
       and_then (deref g new_buffer) (\<lambda>nb.
         assert_at True 447 (buf_pos ob \<ge> buf_start ob)
           (assert_at True 448 ((buf_pos ob + unat used) mod 2 ^ 64 \<le> buf_end ob)
              (assert_at True 449 (free_size nb \<ge> used + requested) (Inr ())))))"

definition migrate_outstanding_writes ::
  "env \<Rightarrow> addr \<Rightarrow> addr \<Rightarrow> size_t \<Rightarrow> size_t \<Rightarrow> globals \<Rightarrow> error + globals" where
  "migrate_outstanding_writes e old new_buffer used requested g =
     and_then
       (if ASSERT e then assert_migration_state g old new_buffer used requested else Inr ())
       (\<lambda>_. if used > 0
            then and_then (deref g new_buffer) (\<lambda>nb.
                   and_then (deref g old) (\<lambda>ob.
                     Inr (g\<lparr>memory := memcpy (buf_pos nb) (buf_pos ob) (unat used) (memory g)\<rparr>)))
            else Inr g)"

subsection \<open>A retrieval policy\<close>

text \<open>
  Modelled from the spec: \<^verbatim>\<open>RetrievalType::get\<close>, the policy behind
  \<^verbatim>\<open>mspace->get(size, thread)\<close>. The spec asks of it a free-list buffer whose free
  space covers the request, or none when no idle buffer suits, and that the buffer is
  marked acquired. This one takes the first member of the free list that is live, not
  retired, not owned and large enough.
\<close>

fun first_fit :: "size_t \<Rightarrow> globals \<Rightarrow> addr list \<Rightarrow> addr option" where
  "first_fit sz g [] = None"
| "first_fit sz g (t # ts) =
     (case heap g t of
        None \<Rightarrow> first_fit sz g ts
      | Some b \<Rightarrow>
          if \<not> retired b \<and> identity b = None \<and> sz \<le> free_size b then Some t
          else first_fit sz g ts)"

definition get_first_fit ::
  "size_t \<Rightarrow> thread \<Rightarrow> mspace \<Rightarrow> globals \<Rightarrow> error + (addr option \<times> globals)" where
  "get_first_fit sz thr m g =
     (case first_fit sz g (free_list m) of
        None \<Rightarrow> Inr (None, g)
      | Some t \<Rightarrow> and_then (modify t (acquire thr) g) (\<lambda>g1. Inr (Some t, g1)))"

subsection \<open>Two builds to run the functions in\<close>

text \<open>Modelled from the spec: the cache policy, "free-list size < cache_count".\<close>

definition free_count_below_cache_count :: "mspace \<Rightarrow> bool" where
  "free_count_below_cache_count m = (word_of_nat (length (free_list m)) < cache_count m)"

text \<open>Modelled from the spec: \<^verbatim>\<open>mspace_get_free_lease\<close>, which
  \<^verbatim>\<open>mspace_get_lease\<close> calls and this file does not define. The spec has it "try to
  obtain a lease'd buffer from the free list": one retrieval, and the lease flag on what it
  returns.\<close>

definition get_free_lease_once ::
  "size_t \<Rightarrow> mspace \<Rightarrow> thread \<Rightarrow> globals \<Rightarrow> error + (addr option \<times> mspace \<times> globals)" where
  "get_free_lease_once sz m thr g =
     and_then (get_first_fit sz thr m g) (\<lambda>(r, g1).
       case r of
         None \<Rightarrow> Inr (None, m, g1)
       | Some t \<Rightarrow> and_then (modify t set_lease g1) (\<lambda>g2. Inr (Some t, m, g2)))"

text \<open>The product build and the debug build on a machine with pages of 4096 bytes, run by
  thread 1.\<close>

definition product_build :: env where
  "product_build =
     \<lparr>ASSERT = False, vm_page_size = 4096, sizeof_T = 64, sizeof_Mspace = 128,
      T_initialize_ok = (\<lambda>hdr sz. True),
      should_populate_cache = free_count_below_cache_count,
      get = get_first_fit, mspace_get_free_lease = get_free_lease_once,
      current_thread = 1\<rparr>"

definition debug_build :: env where
  "debug_build = product_build\<lparr>ASSERT := True\<rparr>"

text \<open>A process that has allocated nothing yet, with the outcomes of its coming heap
  calls.\<close>

definition fresh_process :: "bool list \<Rightarrow> globals" where
  "fresh_process script =
     \<lparr>heap = Map.empty, next_addr = 4096, alloc_script = script,
      size_adjustment_static = None, memory = (\<lambda>a. 0)\<rparr>"

text \<open>A process with two live buffers of 4096 bytes, a transient one at address 4096 and
  a pool buffer at address 8256; a locked pool of cache count 2 that holds both in its full
  list; and one that holds both in its free list.\<close>

definition two_buffers :: globals where
  "two_buffers =
     \<lparr>heap = [4096 \<mapsto> set_transient (T_initialize 4096 64 4096),
              8256 \<mapsto> T_initialize 8256 64 4096],
      next_addr = 12416, alloc_script = [], size_adjustment_static = None,
      memory = (\<lambda>a. 0)\<rparr>"

definition both_full :: mspace where
  "both_full =
     \<lparr>free_list = [], full_list = [4096, 8256], min_elem_size = 4096, limit_size = 8192,
      cache_count = 2, locked = True\<rparr>"

definition both_free :: mspace where
  "both_free =
     \<lparr>free_list = [4096, 8256], full_list = [], min_elem_size = 4096, limit_size = 8192,
      cache_count = 2, locked = True\<rparr>"

subsection \<open>Notions the properties are stated with\<close>

text \<open>The state after \<open>k\<close> calls of \<^verbatim>\<open>mspace_get_free\<close> in a row that all returned
  \<^verbatim>\<open>NULL\<close>; \<open>None\<close> when one of them did not.\<close>

fun failed_attempts ::
  "env \<Rightarrow> size_t \<Rightarrow> mspace \<Rightarrow> thread \<Rightarrow> nat \<Rightarrow> globals \<Rightarrow> globals option" where
  "failed_attempts e sz m thr 0 g = Some g"
| "failed_attempts e sz m thr (Suc k) g =
     (case mspace_get_free e sz m thr g of
        Inr (None, g1) \<Rightarrow> failed_attempts e sz m thr k g1
      | _ \<Rightarrow> None)"

text \<open>Between two states the heap primitive was not called and no buffer appeared or
  disappeared.\<close>

definition no_allocation :: "globals \<Rightarrow> globals \<Rightarrow> bool" where
  "no_allocation g g' =
     (dom (heap g') = dom (heap g) \<and> next_addr g' = next_addr g
      \<and> alloc_script g' = alloc_script g)"

text \<open>
  Modelled from the spec: what the spec asks of \<^verbatim>\<open>mspace_get_free\<close>, and so of the
  retrieval policy: the buffer it returns is a member of the free list and is marked as
  acquired by the thread.
\<close>

definition get_contract :: "env \<Rightarrow> bool" where
  "get_contract e =
     (\<forall>sz thr m g t g1. get e sz thr m g = Inr (Some t, g1) \<longrightarrow>
        in_list t (free_list m) \<and> (\<exists>b. heap g1 t = Some b \<and> identity b = Some thr))"

section \<open>Properties\<close>

subsection \<open>The doubling loop of \<^verbatim>\<open>align_allocation_size\<close>\<close>

lemma align_loop_zero_aux:
  assumes "align_loop r a = Some y"
  shows "a = 0 \<longrightarrow> r = 0"
proof (rule align_loop.raw_induct [where P = "\<lambda>r a y. a = 0 \<longrightarrow> r = 0", OF _ assms])
  fix f :: "size_t \<Rightarrow> size_t \<Rightarrow> size_t option" and r a y :: size_t
  assume IH: "\<And>r a y. f r a = Some y \<Longrightarrow> a = 0 \<longrightarrow> r = 0"
    and eq: "(if a < r then f r (push_bit 1 a) else Some a) = Some y"
  show "a = 0 \<longrightarrow> r = 0"
  proof
    assume a0: "a = 0"
    show "r = 0"
    proof (rule ccontr)
      assume "r \<noteq> 0"
      then have "a < r" using a0 by (simp add: word_greater_zero_iff)
      with eq a0 have "f r 0 = Some y" by simp
      with IH have "r = 0" by blast
      with \<open>r \<noteq> 0\<close> show False by simp
    qed
  qed
qed

lemma align_loop_diverges: "0 < r \<Longrightarrow> align_loop r 0 = None"
  using align_loop_zero_aux [of r 0] by (cases "align_loop r 0") auto

lemma unat_double:
  fixes a r :: size_t
  assumes "a < r" "r \<le> min_intx"
  shows "unat (push_bit 1 a) = 2 * unat a"
proof -
  have "unat a < unat r" using assms(1) by (simp add: word_less_nat_alt)
  moreover have "unat r \<le> 2 ^ 63" using assms(2) by (simp add: min_intx_def word_le_nat_alt)
  ultimately have "2 * unat a < 2 ^ 64" by simp
  then show ?thesis by (simp add: unat_word_ariths push_bit_eq_mult)
qed

lemma align_loop_char:
  fixes a r :: size_t
  assumes "0 < a" "r \<le> min_intx"
  shows "\<exists>k. align_loop r a = Some (word_of_nat (unat a * 2 ^ k)) \<and> unat a * 2 ^ k < 2 ^ 64
            \<and> unat r \<le> unat a * 2 ^ k \<and> (\<forall>j<k. unat a * 2 ^ j < unat r)"
  using assms
proof (induction "unat r - unat a" arbitrary: a rule: less_induct)
  case less
  show ?case
  proof (cases "a < r")
    case False
    then have "align_loop r a = Some a" by (simp add: align_loop.simps)
    moreover have "unat r \<le> unat a" using False by (simp add: word_le_nat_alt not_less)
    moreover have "unat a < 2 ^ 64" using unsigned_less [of a] by simp
    ultimately show ?thesis by (intro exI [of _ 0]) simp
  next
    case True
    let ?b = "push_bit 1 a :: size_t"
    have ub: "unat ?b = 2 * unat a" using True less.prems(2) by (rule unat_double)
    have apos: "0 < unat a" using less.prems(1) by (simp add: word_less_nat_alt)
    have lt: "unat a < unat r" using True by (simp add: word_less_nat_alt)
    have "0 < ?b" using ub apos by (simp add: word_less_nat_alt)
    moreover have "unat r - unat ?b < unat r - unat a" using ub apos lt by simp
    ultimately obtain k where k: "align_loop r ?b = Some (word_of_nat (unat ?b * 2 ^ k))"
      "unat ?b * 2 ^ k < 2 ^ 64" "unat r \<le> unat ?b * 2 ^ k" "\<forall>j<k. unat ?b * 2 ^ j < unat r"
      using less.hyps [of ?b] less.prems(2) by blast
    have step: "align_loop r a = align_loop r ?b" using True by (subst align_loop.simps) simp
    have "\<forall>j<Suc k. unat a * 2 ^ j < unat r"
    proof (intro allI impI)
      fix j assume "j < Suc k"
      show "unat a * 2 ^ j < unat r"
      proof (cases j)
        case 0 then show ?thesis using lt by simp
      next
        case (Suc j')
        then have "j' < k" using \<open>j < Suc k\<close> by simp
        then have "unat ?b * 2 ^ j' < unat r" using k(4) by blast
        then show ?thesis using ub Suc by (simp add: ac_simps)
      qed
    qed
    then show ?thesis using k(1-3) step ub
      by (intro exI [of _ "Suc k"]) (simp add: mult.assoc)
  qed
qed

lemma align_loop_result:
  fixes mn r a :: size_t
  assumes "0 < mn" "r \<le> min_intx" "align_loop r mn = Some a"
  shows "\<exists>k. unat a = unat mn * 2 ^ k \<and> unat r \<le> unat a \<and> (\<forall>j<k. unat mn * 2 ^ j < unat r)"
proof -
  obtain k where k: "align_loop r mn = Some (word_of_nat (unat mn * 2 ^ k))"
    "unat mn * 2 ^ k < 2 ^ 64" "unat r \<le> unat mn * 2 ^ k" "\<forall>j<k. unat mn * 2 ^ j < unat r"
    using align_loop_char [OF assms(1,2)] by blast
  have "word_of_nat (unat mn * 2 ^ k) = a" using k(1) assms(3) by simp
  then have "unat a = unat mn * 2 ^ k" using k(2) by (intro of_nat_inverse) simp_all
  then show ?thesis using k(3,4) by auto
qed

lemma align_loop_total:
  fixes mn r :: size_t
  assumes "0 < mn" "r \<le> min_intx"
  shows "\<exists>a. align_loop r mn = Some a"
  using align_loop_char [OF assms] by blast

lemma align_loop_mono:
  fixes mn r1 r2 a1 a2 :: size_t
  assumes "0 < mn" "r1 \<le> r2" "r2 \<le> min_intx"
    "align_loop r1 mn = Some a1" "align_loop r2 mn = Some a2"
  shows "a1 \<le> a2"
proof -
  have r1: "r1 \<le> min_intx" using assms(2,3) by simp
  obtain k1 where k1: "unat a1 = unat mn * 2 ^ k1" "\<forall>j<k1. unat mn * 2 ^ j < unat r1"
    using align_loop_result [OF assms(1) r1 assms(4)] by blast
  obtain k2 where k2: "unat a2 = unat mn * 2 ^ k2" "unat r2 \<le> unat a2"
    using align_loop_result [OF assms(1,3,5)] by blast
  have le: "unat r1 \<le> unat r2" using assms(2) by (simp add: word_le_nat_alt)
  have "k1 \<le> k2"
  proof (rule ccontr)
    assume "\<not> k1 \<le> k2"
    then have "unat mn * 2 ^ k2 < unat r1" using k1(2) by simp
    then show False using k2 le by simp
  qed
  then have "(2::nat) ^ k1 \<le> 2 ^ k2" by simp
  then have "unat a1 \<le> unat a2" using k1(1) k2(1) by simp
  then show ?thesis by (simp add: word_le_nat_alt)
qed

lemma align_loop_idem:
  fixes mn r a :: size_t
  assumes "0 < mn" "r \<le> min_intx" "align_loop r mn = Some a" "a \<le> min_intx"
  shows "align_loop a mn = Some a"
proof -
  obtain k where k: "unat a = unat mn * 2 ^ k"
    using align_loop_result [OF assms(1,2,3)] by blast
  obtain a' where a': "align_loop a mn = Some a'"
    using align_loop_total [OF assms(1,4)] by blast
  obtain k' where k': "unat a' = unat mn * 2 ^ k'" "unat a \<le> unat a'"
    "\<forall>j<k'. unat mn * 2 ^ j < unat a"
    using align_loop_result [OF assms(1,4) a'] by blast
  have mpos: "0 < unat mn" using assms(1) by (simp add: word_less_nat_alt)
  have "\<not> k < k'" using k'(3) k by auto
  moreover have "\<not> k' < k"
  proof
    assume "k' < k"
    then have "(2::nat) ^ k' < 2 ^ k" by simp
    then have "unat mn * 2 ^ k' < unat mn * 2 ^ k" using mpos by simp
    then show False using k k' by simp
  qed
  ultimately have "k' = k" by simp
  then have "unat a' = unat a" using k k'(1) by simp
  then show ?thesis using a' by (simp add: word_unat_eq_iff)
qed

lemma align_allocation_size_Inr:
  assumes "align_allocation_size e r mn = Inr a" "r \<le> min_intx"
  shows "align_loop r mn = Some a \<and> (ASSERT e \<longrightarrow> int_page_aligned e mn \<and> int_page_aligned e a \<and> a \<le> min_intx)"
  using assms
  by (auto simp: align_allocation_size_def assert_at_def not_less [symmetric]
      split: if_splits option.splits)

text \<open>
  C4 (as amended). For a positive minimum and requests up to \<open>min_intx\<close> (\<open>2 ^ 63\<close>), where
  the function returns: the result is the minimum doubled \<open>k\<close> times without wrap-around,
  for the least \<open>k\<close> that reaches the request, so it is at least the request; it is
  monotonic in the request on that range; aligning a result that is itself at most
  \<open>min_intx\<close> returns it unchanged. In the product build the function returns for every such
  request. For a request above \<open>min_intx\<close> the product build returns the sentinel 0, the
  debug build fails an assertion.
\<close>

theorem align_allocation_size_sizes:
  fixes mn r r' r1 r2 a1 a2 :: size_t
  shows "(0 < mn \<and> r1 \<le> r2 \<and> r2 \<le> min_intx
          \<and> align_allocation_size e r1 mn = Inr a1 \<and> align_allocation_size e r2 mn = Inr a2
          \<longrightarrow> (\<exists>k. unat a1 = unat mn * 2 ^ k \<and> (\<forall>j<k. unat mn * 2 ^ j < unat r1))
              \<and> r1 \<le> a1 \<and> a1 \<le> a2
              \<and> (a1 \<le> min_intx \<longrightarrow> align_allocation_size e a1 mn = Inr a1))
       \<and> (0 < mn \<and> r \<le> min_intx \<and> \<not> ASSERT e \<longrightarrow> (\<exists>a. align_allocation_size e r mn = Inr a))
       \<and> (min_intx < r' \<longrightarrow>
            align_allocation_size e r' mn =
              (if ASSERT e
               then Inl (assertion_failed (if int_page_aligned e mn then 77 else 75))
               else Inr 0))"
proof (intro conjI impI)
  assume h: "0 < mn \<and> r1 \<le> r2 \<and> r2 \<le> min_intx
      \<and> align_allocation_size e r1 mn = Inr a1 \<and> align_allocation_size e r2 mn = Inr a2"
  then have mn: "0 < mn" and r12: "r1 \<le> r2" and r2: "r2 \<le> min_intx" and r1: "r1 \<le> min_intx"
    by auto
  have l1: "align_loop r1 mn = Some a1"
    and d1: "ASSERT e \<longrightarrow> int_page_aligned e mn \<and> int_page_aligned e a1 \<and> a1 \<le> min_intx"
    using align_allocation_size_Inr [of e r1 mn a1] h r1 by auto
  have l2: "align_loop r2 mn = Some a2"
    using align_allocation_size_Inr [of e r2 mn a2] h by auto
  obtain k where k: "unat a1 = unat mn * 2 ^ k" "unat r1 \<le> unat a1"
    "\<forall>j<k. unat mn * 2 ^ j < unat r1"
    using align_loop_result [OF mn r1 l1] by blast
  show "\<exists>k. unat a1 = unat mn * 2 ^ k \<and> (\<forall>j<k. unat mn * 2 ^ j < unat r1)"
    using k by blast
  show "r1 \<le> a1" using k(2) by (simp add: word_le_nat_alt)
  show "a1 \<le> a2" using align_loop_mono [OF mn r12 r2 l1 l2] .
  show "align_allocation_size e a1 mn = Inr a1" if a1: "a1 \<le> min_intx"
    using align_loop_idem [OF mn r1 l1 a1] d1 a1
    by (simp add: align_allocation_size_def assert_at_def not_less [symmetric])
next
  assume "0 < mn \<and> r \<le> min_intx \<and> \<not> ASSERT e"
  then show "\<exists>a. align_allocation_size e r mn = Inr a"
    using align_loop_total [of mn r]
    by (auto simp: align_allocation_size_def assert_at_def not_less [symmetric])
next
  assume "min_intx < r'"
  then show "align_allocation_size e r' mn =
      (if ASSERT e then Inl (assertion_failed (if int_page_aligned e mn then 77 else 75))
       else Inr 0)"
    by (simp add: align_allocation_size_def assert_at_def)
qed

theorem align_allocation_size_sizes_witness:
  "align_allocation_size debug_build 12288 4096 = Inr 16384
   \<and> align_allocation_size debug_build 20000 4096 = Inr 32768
   \<and> (12288 :: size_t) \<le> 16384 \<and> (16384 :: size_t) \<le> 32768
   \<and> align_allocation_size debug_build 16384 4096 = Inr 16384
   \<and> (\<exists>a. align_allocation_size product_build 5 4096 = Inr a)
   \<and> align_allocation_size debug_build (2 ^ 63 + 1) 4096 = Inl (assertion_failed 77)
   \<and> align_allocation_size product_build (2 ^ 63 + 1) 4096 = Inr 0"
proof -
  have h1: "align_allocation_size debug_build 12288 4096 = Inr 16384"
    and h2: "align_allocation_size debug_build 20000 4096 = Inr 32768"
    by (simp_all add: align_allocation_size_def assert_at_def debug_build_def
        product_build_def int_page_aligned_def min_intx_def align_loop.simps)
  have d: "ASSERT debug_build" "int_page_aligned debug_build 4096"
    by (simp_all add: debug_build_def product_build_def int_page_aligned_def)
  have p: "\<not> ASSERT product_build"
    by (simp add: product_build_def)
  show ?thesis
    using h1 h2 d p
      align_allocation_size_sizes [of 4096 12288 20000 debug_build 16384 32768 5 "2 ^ 63 + 1"]
      align_allocation_size_sizes [of 4096 12288 20000 product_build 16384 32768 5 "2 ^ 63 + 1"]
    by (simp add: min_intx_def)
qed

text \<open>Where the claim as stated fails: a request above \<open>min_intx\<close> gets 0, which is less
  than the result of a smaller request and is not at least the request; a result above
  \<open>min_intx\<close> is not a fixed point; and with a minimum of 0 the loop never ends.\<close>

theorem align_allocation_size_counterexample:
  "(1 :: size_t) \<le> 2 ^ 63 + 1
   \<and> align_allocation_size product_build 1 4096 = Inr 4096
   \<and> align_allocation_size product_build (2 ^ 63 + 1) 4096 = Inr 0
   \<and> \<not> (4096 :: size_t) \<le> 0
   \<and> \<not> (2 ^ 63 + 1 :: size_t) \<le> 0
   \<and> align_allocation_size product_build (2 ^ 63) (3 * 2 ^ 61) = Inr (3 * 2 ^ 62)
   \<and> align_allocation_size product_build (3 * 2 ^ 62) (3 * 2 ^ 61) = Inr 0
   \<and> align_allocation_size product_build 1 0 = Inl nontermination"
proof -
  have "align_loop 1 0 = None"
    by (rule align_loop_diverges) simp
  then have never: "align_allocation_size product_build 1 0 = Inl nontermination"
    by (simp add: align_allocation_size_def assert_at_def product_build_def min_intx_def)
  have "(1 :: size_t) \<le> 2 ^ 63 + 1
   \<and> align_allocation_size product_build 1 4096 = Inr 4096
   \<and> align_allocation_size product_build (2 ^ 63 + 1) 4096 = Inr 0
   \<and> \<not> (4096 :: size_t) \<le> 0
   \<and> \<not> (2 ^ 63 + 1 :: size_t) \<le> 0
   \<and> align_allocation_size product_build (2 ^ 63) (3 * 2 ^ 61) = Inr (3 * 2 ^ 62)
   \<and> align_allocation_size product_build (3 * 2 ^ 62) (3 * 2 ^ 61) = Inr 0"
    by (simp add: align_allocation_size_def assert_at_def product_build_def
        min_intx_def align_loop.simps)
  with never show ?thesis
    by blast
qed

subsection \<open>\<^verbatim>\<open>initialize\<close>\<close>

lemma align_allocation_size_same:
  assumes "align_allocation_size e mn mn = Inr a" "a \<noteq> 0 \<or> mn = 0"
  shows "a = mn"
proof (cases "mn \<le> min_intx")
  case True
  then have "align_loop mn mn = Some a"
    using align_allocation_size_Inr [OF assms(1)] by simp
  then show ?thesis by (simp add: align_loop.simps)
next
  case False
  then have "a = 0" using assms(1)
    by (auto simp: align_allocation_size_def assert_at_def not_le split: if_splits)
  with assms(2) show ?thesis by simp
qed

lemma unat_succ_less: "i < (n::64 word) \<Longrightarrow> unat (i + 1) = Suc (unat i)"
proof -
  assume "i < n"
  then have "unat i < unat n" by (simp add: word_less_nat_alt)
  moreover have "unat n < 2 ^ 64" using unsigned_less [of n] by simp
  ultimately have "Suc (unat i) < 2 ^ 64" by simp
  then show ?thesis by (simp add: unat_word_ariths)
qed

lemma new_array_Some:
  assumes "new_array n g = (Some t, g1)"
  shows "t = next_addr g \<and> next_addr g < next_addr g1 \<and> heap g1 = heap g
    \<and> alloc_script g1 = tl (alloc_script g)
    \<and> (alloc_script g \<noteq> [] \<longrightarrow> hd (alloc_script g))"
  using assms by (auto simp: new_array_def split: list.splits if_splits)

lemma allocate_min_Some:
  assumes "allocate e (min_elem_size m) m g = Inr (Some t, g1)"
  shows "t = next_addr g \<and> next_addr g < next_addr g1
    \<and> heap g1 = (heap g)(t \<mapsto> T_initialize t (sizeof_T e) (min_elem_size m))
    \<and> alloc_script g1 = tl (alloc_script g)
    \<and> (alloc_script g \<noteq> [] \<longrightarrow> hd (alloc_script g))"
proof -
  obtain a where a: "align_allocation_size e (min_elem_size m) (min_elem_size m) = Inr a"
    using assms by (cases "align_allocation_size e (min_elem_size m) (min_elem_size m)")
      (auto simp: allocate_def and_then_def)
  have nz: "a \<noteq> 0 \<or> min_elem_size m = 0"
    using assms a by (auto simp: allocate_def and_then_def split: if_splits)
  have am: "a = min_elem_size m"
    using align_allocation_size_same [OF a nz] .
  obtain g0 where n: "new_array (a + sizeof_T e) g = (Some t, g0)"
    and g1: "g1 = g0\<lparr>heap := (heap g0)(t \<mapsto> T_initialize t (sizeof_T e) a)\<rparr>"
    using assms a nz
    by (auto simp: allocate_def and_then_def split: prod.splits option.splits if_splits)
  show ?thesis
    using new_array_Some [OF n] g1 am by simp
qed

lemma allocate_min_total:
  assumes "ASSERT e \<longrightarrow> int_page_aligned e (min_elem_size m) \<and> min_elem_size m \<le> min_intx"
  shows "\<exists>r g1. allocate e (min_elem_size m) m g = Inr (r, g1)"
proof -
  have "\<exists>a. align_allocation_size e (min_elem_size m) (min_elem_size m) = Inr a"
    using assms
    by (auto simp: align_allocation_size_def assert_at_def align_loop.simps not_less [symmetric])
  then show ?thesis
    by (auto simp: allocate_def and_then_def split: prod.splits option.splits)
qed

text \<open>The invariant of the loop of \<^verbatim>\<open>initialize\<close>: what holds when it returns true, when it
  returns false, and that it returns.\<close>

lemma initialize_loop_True:
  assumes "initialize_loop e i m g = Inr (True, m', g')" "i \<le> cache_count m"
  shows "\<exists>ts. free_list m' = ts @ free_list m
      \<and> length ts = unat (cache_count m) - unat i \<and> distinct ts
      \<and> (\<forall>t\<in>set ts. next_addr g \<le> t \<and> t < next_addr g'
            \<and> heap g' t = Some (T_initialize t (sizeof_T e) (min_elem_size m)))
      \<and> (\<forall>a<next_addr g. heap g' a = heap g a)
      \<and> next_addr g \<le> next_addr g'
      \<and> full_list m' = full_list m
      \<and> (\<forall>j<unat (cache_count m) - unat i. j < length (alloc_script g) \<longrightarrow> alloc_script g ! j)"
  using assms
proof (induction e i m g rule: initialize_loop.induct)
  case (1 e i m g)
  show ?case
  proof (cases "i < cache_count m")
    case False
    then have "i = cache_count m" using "1.prems"(2) by simp
    moreover have "m' = m \<and> g' = g"
      using "1.prems"(1) False
      by (subst (asm) initialize_loop.simps) (auto simp: assert_at_def split: if_splits)
    ultimately show ?thesis by simp
  next
    case True
    then obtain t g1 where al: "allocate e (min_elem_size m) m g = Inr (Some t, g1)"
      and rec: "initialize_loop e (i + 1) (insert_free_head t m) g1 = Inr (True, m', g')"
      using "1.prems"(1)
      by (subst (asm) initialize_loop.simps)
        (auto split: sum.splits prod.splits option.splits)
    have ui: "unat (i + 1) = Suc (unat i)"
      using True by (rule unat_succ_less)
    have lt: "unat i < unat (cache_count m)"
      using True by (simp add: word_less_nat_alt)
    have le: "i + 1 \<le> cache_count (insert_free_head t m)"
      using ui lt by (simp add: word_le_nat_alt insert_free_head_def)
    note A = allocate_min_Some [OF al]
    obtain ts where ts: "free_list m' = ts @ free_list (insert_free_head t m)"
      "length ts = unat (cache_count m) - unat (i + 1)" "distinct ts"
      "\<forall>t'\<in>set ts. next_addr g1 \<le> t' \<and> t' < next_addr g'
            \<and> heap g' t' = Some (T_initialize t' (sizeof_T e) (min_elem_size m))"
      "\<forall>a<next_addr g1. heap g' a = heap g1 a"
      "next_addr g1 \<le> next_addr g'"
      "full_list m' = full_list m"
      "\<forall>j<unat (cache_count m) - unat (i + 1). j < length (alloc_script g1) \<longrightarrow> alloc_script g1 ! j"
      using "1.IH" [OF True al refl refl rec le]
      by (auto simp: insert_free_head_def)
    let ?ts = "ts @ [t]"
    have f: "free_list m' = ?ts @ free_list m"
      using ts(1) by (simp add: insert_free_head_def prepend_def)
    have len: "length ?ts = unat (cache_count m) - unat i"
      using ts(2) ui lt by simp
    have tn: "t \<notin> set ts" using ts(4) A by auto
    have d: "distinct ?ts" using ts(3) tn by simp
    have ht: "heap g' t = Some (T_initialize t (sizeof_T e) (min_elem_size m))"
      using ts(5) A by simp
    have mem: "\<forall>t'\<in>set ?ts. next_addr g \<le> t' \<and> t' < next_addr g'
            \<and> heap g' t' = Some (T_initialize t' (sizeof_T e) (min_elem_size m))"
      using ts(4,6) A ht by auto
    have old: "\<forall>a<next_addr g. heap g' a = heap g a"
      using ts(5) A by auto
    have scr: "\<forall>j<unat (cache_count m) - unat i. j < length (alloc_script g) \<longrightarrow> alloc_script g ! j"
    proof (intro allI impI)
      fix j assume j: "j < unat (cache_count m) - unat i" "j < length (alloc_script g)"
      then have ne: "alloc_script g \<noteq> []" by auto
      show "alloc_script g ! j"
      proof (cases j)
        case 0
        then show ?thesis using A ne by (simp add: hd_conv_nth)
      next
        case (Suc j')
        then have "j' < unat (cache_count m) - unat (i + 1)" "j' < length (alloc_script g1)"
          using j ui A by auto
        then have "alloc_script g1 ! j'" using ts(8) by blast
        then show ?thesis using A Suc ne by (cases "alloc_script g") auto
      qed
    qed
    show ?thesis
      using f len d mem old ts(6,7) A scr by (intro exI [of _ ?ts]) auto
  qed
qed

lemma initialize_loop_False:
  assumes "initialize_loop e i m g = Inr (False, m', g')" "i \<le> cache_count m"
  shows "\<exists>ts. free_list m' = ts @ free_list m \<and> length ts < unat (cache_count m) - unat i"
  using assms
proof (induction e i m g rule: initialize_loop.induct)
  case (1 e i m g)
  show ?case
  proof (cases "i < cache_count m")
    case False
    then have "False"
      using "1.prems"(1)
      by (subst (asm) initialize_loop.simps) (auto simp: assert_at_def split: if_splits)
    then show ?thesis ..
  next
    case True
    have ui: "unat (i + 1) = Suc (unat i)"
      using True by (rule unat_succ_less)
    have lt: "unat i < unat (cache_count m)"
      using True by (simp add: word_less_nat_alt)
    have eq: "(case allocate e (min_elem_size m) m g of
                 Inl err \<Rightarrow> Inl err
               | Inr (None, g1) \<Rightarrow> Inr (False, m, g1)
               | Inr (Some t, g1) \<Rightarrow> initialize_loop e (i + 1) (insert_free_head t m) g1)
              = Inr (False, m', g')"
      using "1.prems"(1) True by (subst (asm) initialize_loop.simps) simp
    then obtain r g1 where al: "allocate e (min_elem_size m) m g = Inr (r, g1)"
      by (cases "allocate e (min_elem_size m) m g") auto
    show ?thesis
    proof (cases r)
      case None
      then have "m' = m" using eq al by simp
      then show ?thesis using lt by (intro exI [of _ "[]"]) simp
    next
      case (Some t)
      then have al': "allocate e (min_elem_size m) m g = Inr (Some t, g1)"
        and rec: "initialize_loop e (i + 1) (insert_free_head t m) g1 = Inr (False, m', g')"
        using eq al by simp_all
      have le: "i + 1 \<le> cache_count (insert_free_head t m)"
        using ui lt by (simp add: word_le_nat_alt insert_free_head_def)
      obtain ts where ts: "free_list m' = ts @ free_list (insert_free_head t m)"
        "length ts < unat (cache_count m) - unat (i + 1)"
        using "1.IH" [OF True al' refl refl rec le]
        by (auto simp: insert_free_head_def)
      show ?thesis
        using ts ui lt
        by (intro exI [of _ "ts @ [t]"]) (simp add: insert_free_head_def prepend_def)
    qed
  qed
qed

lemma initialize_loop_total:
  assumes "ASSERT e \<longrightarrow> int_page_aligned e (min_elem_size m) \<and> min_elem_size m \<le> min_intx
      \<and> length (free_list m) = unat i \<and> i \<le> cache_count m"
  shows "\<exists>ok m' g'. initialize_loop e i m g = Inr (ok, m', g')"
  using assms
proof (induction e i m g rule: initialize_loop.induct)
  case (1 e i m g)
  show ?case
  proof (cases "i < cache_count m")
    case False
    then have "ASSERT e \<longrightarrow> word_of_nat (length (free_list m)) = cache_count m"
      using "1.prems" by auto
    then show ?thesis using False
      by (subst initialize_loop.simps) (auto simp: assert_at_def)
  next
    case True
    obtain r g1 where al: "allocate e (min_elem_size m) m g = Inr (r, g1)"
      using allocate_min_total [of e m g] "1.prems" by blast
    show ?thesis
    proof (cases r)
      case None
      then show ?thesis using True al by (subst initialize_loop.simps) auto
    next
      case (Some t)
      have ui: "unat (i + 1) = Suc (unat i)"
        using True by (rule unat_succ_less)
      have lt: "unat i < unat (cache_count m)"
        using True by (simp add: word_less_nat_alt)
      have inv: "ASSERT e \<longrightarrow> int_page_aligned e (min_elem_size (insert_free_head t m))
          \<and> min_elem_size (insert_free_head t m) \<le> min_intx
          \<and> length (free_list (insert_free_head t m)) = unat (i + 1)
          \<and> i + 1 \<le> cache_count (insert_free_head t m)"
        using "1.prems" ui lt by (simp add: insert_free_head_def prepend_def word_le_nat_alt)
      show ?thesis
        using True al "1.IH" [OF True al [unfolded Some] refl refl inv] Some
        by (subst initialize_loop.simps) simp
    qed
  qed
qed

lemma initialize_Inr:
  assumes "initialize e m g = Inr x"
  shows "initialize_loop e 0 m g = Inr x"
  using assms by (auto simp: initialize_def assert_at_def split: if_splits)

lemma initialize_loop_True_first:
  assumes "initialize_loop e i m g = Inr (True, m', g')" "i < cache_count m"
  shows "T_initialize_ok e (sizeof_T e) (min_elem_size m) \<and> min_elem_size m \<le> min_intx"
proof -
  obtain t g1 where al: "allocate e (min_elem_size m) m g = Inr (Some t, g1)"
    using assms
    by (subst (asm) initialize_loop.simps) (auto split: sum.splits prod.splits option.splits)
  then obtain a where a: "align_allocation_size e (min_elem_size m) (min_elem_size m) = Inr a"
    by (cases "align_allocation_size e (min_elem_size m) (min_elem_size m)")
      (auto simp: allocate_def and_then_def)
  have nz: "a \<noteq> 0 \<or> min_elem_size m = 0"
    using al a by (auto simp: allocate_def and_then_def split: if_splits)
  have am: "a = min_elem_size m"
    using align_allocation_size_same [OF a nz] .
  have "\<not> min_intx < min_elem_size m"
  proof
    assume big: "min_intx < min_elem_size m"
    then have "a = 0" using a
      by (auto simp: align_allocation_size_def assert_at_def split: if_splits)
    with am big show False by simp
  qed
  moreover have "T_initialize_ok e (sizeof_T e) (min_elem_size m)"
    using al a am nz
    by (auto simp: allocate_def and_then_def split: prod.splits option.splits if_splits)
  ultimately show ?thesis by (simp add: not_less)
qed

text \<open>Running the functions on concrete states: the definitions to unfold.\<close>

lemmas run_defs = assert_at_def assert_buf_def debug_build_def product_build_def page_aligned_def
     JfrMemorySpace_def fresh_process_def allocate_def and_then_def
     align_allocation_size_def int_page_aligned_def min_intx_def align_loop.simps new_array_def
     insert_free_head_def insert_full_head_def prepend_def  initialize_def
     initialize_loop.simps

text \<open>
  C2. On a pool as the constructor leaves it, with \<open>cache_count = cc\<close>: when
  \<^verbatim>\<open>initialize\<close> returns true, the free list holds exactly \<open>cc\<close> buffers, all
  different, each freshly allocated and initialised with payload size \<open>min_elem_size\<close>,
  and the full list is empty; when one of the first \<open>cc\<close> calls of the heap primitive
  fails, or \<^verbatim>\<open>T::initialize\<close> fails, or the size is above \<open>min_intx\<close>,
  \<^verbatim>\<open>initialize\<close> does not return true; and it returns, in the product build always
  and in the debug build when its assertions on the sizes hold.
\<close>

theorem initialize_fills_free_list:
  "(initialize e (JfrMemorySpace mn lim cc) g = Inr (True, m', g') \<longrightarrow>
      length (free_list m') = unat cc \<and> distinct (free_list m') \<and> full_list m' = []
      \<and> (\<forall>t\<in>set (free_list m').
            heap g' t = Some (T_initialize t (sizeof_T e) mn) \<and> next_addr g \<le> t))
   \<and> (initialize e (JfrMemorySpace mn lim cc) g = Inr (ok, m'', g'')
        \<and> ((\<exists>j<unat cc. j < length (alloc_script g) \<and> \<not> alloc_script g ! j)
             \<or> 0 < cc \<and> \<not> T_initialize_ok e (sizeof_T e) mn
             \<or> 0 < cc \<and> min_intx < mn) \<longrightarrow> \<not> ok)
   \<and> ((ASSERT e \<longrightarrow> page_aligned e mn \<and> page_aligned e lim \<and> int_page_aligned e mn
            \<and> mn \<le> min_intx)
        \<longrightarrow> (\<exists>ok m' g'. initialize e (JfrMemorySpace mn lim cc) g = Inr (ok, m', g')))"
proof (intro conjI impI)
  let ?m = "JfrMemorySpace mn lim cc"
  have m: "free_list ?m = []" "full_list ?m = []" "cache_count ?m = cc" "min_elem_size ?m = mn"
    by (simp_all add: JfrMemorySpace_def)
  {
    assume "initialize e ?m g = Inr (True, m', g')"
    then have "initialize_loop e 0 ?m g = Inr (True, m', g')"
      by (rule initialize_Inr)
    from initialize_loop_True [OF this] m
    obtain ts where ts: "free_list m' = ts" "length ts = unat cc" "distinct ts"
      "\<forall>t\<in>set ts. next_addr g \<le> t \<and> t < next_addr g'
            \<and> heap g' t = Some (T_initialize t (sizeof_T e) mn)"
      "full_list m' = []"
      by auto
    then show "length (free_list m') = unat cc" "distinct (free_list m')" "full_list m' = []"
      "\<forall>t\<in>set (free_list m').
          heap g' t = Some (T_initialize t (sizeof_T e) mn) \<and> next_addr g \<le> t"
      by auto
  }
  {
    assume h: "initialize e ?m g = Inr (ok, m'', g'')
        \<and> ((\<exists>j<unat cc. j < length (alloc_script g) \<and> \<not> alloc_script g ! j)
             \<or> 0 < cc \<and> \<not> T_initialize_ok e (sizeof_T e) mn
             \<or> 0 < cc \<and> min_intx < mn)"
    show "\<not> ok"
    proof
      assume ok
      with h have "initialize e ?m g = Inr (True, m'', g'')"
        by simp
      then have "initialize_loop e 0 ?m g = Inr (True, m'', g'')"
        by (rule initialize_Inr)
      then have "\<forall>j<unat cc. j < length (alloc_script g) \<longrightarrow> alloc_script g ! j"
        and "0 < cc \<longrightarrow> T_initialize_ok e (sizeof_T e) mn \<and> mn \<le> min_intx"
        using initialize_loop_True [of e 0 ?m g m'' g''] initialize_loop_True_first [of e 0 ?m g m'' g'']
          m
        by auto
      with h show False by (auto simp: not_less [symmetric])
    qed
  }
  {
    assume "ASSERT e \<longrightarrow> page_aligned e mn \<and> page_aligned e lim \<and> int_page_aligned e mn
        \<and> mn \<le> min_intx"
    then show "\<exists>ok m' g'. initialize e ?m g = Inr (ok, m', g')"
      using initialize_loop_total [of e ?m 0 g] m
      by (auto simp: initialize_def assert_at_def JfrMemorySpace_def)
  }
qed

theorem initialize_fills_free_list_witness:
  "(\<exists>m' g'. initialize debug_build (JfrMemorySpace 4096 8192 2) (fresh_process []) = Inr (True, m', g')
       \<and> length (free_list m') = 2 \<and> distinct (free_list m') \<and> full_list m' = []
       \<and> (\<forall>t\<in>set (free_list m'). heap g' t = Some (T_initialize t 64 4096) \<and> 4096 \<le> t))
   \<and> (\<exists>m' g'. initialize debug_build (JfrMemorySpace 4096 8192 2) (fresh_process [True, False])
          = Inr (False, m', g'))
   \<and> (\<exists>m' g'. initialize (product_build\<lparr>T_initialize_ok := \<lambda>hdr sz. False\<rparr>)
          (JfrMemorySpace 4096 8192 2) (fresh_process []) = Inr (False, m', g'))
   \<and> (\<exists>m' g'. initialize product_build (JfrMemorySpace (2 ^ 63 + 4096) 8192 2) (fresh_process [])
          = Inr (False, m', g'))
   \<and> (\<exists>ok m' g'. initialize product_build (JfrMemorySpace 5 7 2) (fresh_process [])
          = Inr (ok, m', g'))
   \<and> (\<exists>ok m' g'. initialize debug_build (JfrMemorySpace 4096 8192 3) (fresh_process [False])
          = Inr (ok, m', g'))"
proof -
  obtain m1 g1 where run1:
    "initialize debug_build (JfrMemorySpace 4096 8192 2) (fresh_process []) = Inr (True, m1, g1)"
    by (simp add: run_defs)
  obtain ok m2 g2 where run2:
    "initialize debug_build (JfrMemorySpace 4096 8192 2) (fresh_process [True, False])
       = Inr (ok, m2, g2)"
    by (auto simp add: run_defs)
  have script: "\<exists>j<unat (2 :: size_t). j < length (alloc_script (fresh_process [True, False]))
      \<and> \<not> alloc_script (fresh_process [True, False]) ! j"
    by (intro exI [of _ 1]) (simp add: fresh_process_def)
  have e: "sizeof_T debug_build = 64" "next_addr (fresh_process []) = 4096"
    "\<not> ASSERT product_build"
    by (simp_all add: debug_build_def product_build_def fresh_process_def)
  note T1 = initialize_fills_free_list
    [of debug_build 4096 8192 2 "fresh_process []" m1 g1 ok m2 g2]
  note T2 = initialize_fills_free_list
    [of debug_build 4096 8192 2 "fresh_process [True, False]" m1 g1 ok m2 g2]
  note T3 = initialize_fills_free_list
    [of product_build 5 7 2 "fresh_process []" m1 g1 ok m2 g2]
  note T4 = initialize_fills_free_list
    [of debug_build 4096 8192 3 "fresh_process [False]" m1 g1 ok m2 g2]
  have d: "page_aligned debug_build 4096" "page_aligned debug_build 8192"
    "int_page_aligned debug_build 4096" "(4096 :: size_t) \<le> min_intx"
    by (simp_all add: debug_build_def product_build_def page_aligned_def int_page_aligned_def
        min_intx_def)
  let ?noinit = "product_build\<lparr>T_initialize_ok := \<lambda>hdr sz. False\<rparr>"
  obtain ok5 m5 g5 where run5:
    "initialize ?noinit (JfrMemorySpace 4096 8192 2) (fresh_process []) = Inr (ok5, m5, g5)"
    by (auto simp add: run_defs cheap_free_def)
  obtain ok6 m6 g6 where run6:
    "initialize product_build (JfrMemorySpace (2 ^ 63 + 4096) 8192 2) (fresh_process [])
       = Inr (ok6, m6, g6)"
    by (auto simp add: run_defs)
  have causes: "(0 :: size_t) < 2" "\<not> T_initialize_ok ?noinit (sizeof_T ?noinit) 4096"
    "min_intx < 2 ^ 63 + 4096"
    by (simp_all add: min_intx_def)
  note T5 = initialize_fills_free_list
    [of ?noinit 4096 8192 2 "fresh_process []" m1 g1 ok5 m5 g5]
  note T6 = initialize_fills_free_list
    [of product_build "2 ^ 63 + 4096" 8192 2 "fresh_process []" m1 g1 ok6 m6 g6]
  have "\<not> ok5" using T5 run5 causes by blast
  then have c5: "\<exists>m' g'. initialize ?noinit (JfrMemorySpace 4096 8192 2) (fresh_process [])
      = Inr (False, m', g')"
    using run5 by auto
  have "\<not> ok6" using T6 run6 causes by blast
  then have c6: "\<exists>m' g'. initialize product_build (JfrMemorySpace (2 ^ 63 + 4096) 8192 2)
      (fresh_process []) = Inr (False, m', g')"
    using run6 by auto
  have "\<not> ok" using T2 run2 script by blast
  then have c2: "\<exists>m' g'. initialize debug_build (JfrMemorySpace 4096 8192 2) (fresh_process [True, False])
          = Inr (False, m', g')"
    using run2 by auto
  have c1: "\<exists>m' g'. initialize debug_build (JfrMemorySpace 4096 8192 2) (fresh_process []) = Inr (True, m', g')
       \<and> length (free_list m') = 2 \<and> distinct (free_list m') \<and> full_list m' = []
       \<and> (\<forall>t\<in>set (free_list m'). heap g' t = Some (T_initialize t 64 4096) \<and> 4096 \<le> t)"
    using T1 run1 e by (intro exI [of _ m1] exI [of _ g1]) simp
  show ?thesis
    using c1 c2 c5 c6 T3 T4 e(3) d by blast
qed

subsection \<open>\<^verbatim>\<open>create_mspace\<close>\<close>

text \<open>
  C9. When \<^verbatim>\<open>new Mspace\<close> succeeds, \<^verbatim>\<open>create_mspace\<close> returns the pool whatever
  \<^verbatim>\<open>initialize\<close> returned; when \<^verbatim>\<open>initialize\<close> returned false, the pool handed to
  the caller has fewer than \<open>cache_count\<close> buffers in its free list. The witness is a heap
  whose third call fails.
\<close>

theorem create_mspace_ignores_initialize:
  "new_array (sizeof_Mspace e) g = (Some p, g1)
     \<and> initialize e (JfrMemorySpace buffer_size limit cc) g1 = Inr (ok, m', g2)
   \<longrightarrow> create_mspace e buffer_size limit cc g = Inr (Some m', g2)
       \<and> (\<not> ok \<longrightarrow> length (free_list m') < unat cc)"
proof (intro impI conjI)
  assume h: "new_array (sizeof_Mspace e) g = (Some p, g1)
     \<and> initialize e (JfrMemorySpace buffer_size limit cc) g1 = Inr (ok, m', g2)"
  then show "create_mspace e buffer_size limit cc g = Inr (Some m', g2)"
    by (simp add: create_mspace_def)
  assume "\<not> ok"
  with h have "initialize_loop e 0 (JfrMemorySpace buffer_size limit cc) g1 = Inr (False, m', g2)"
    by (auto intro: initialize_Inr)
  from initialize_loop_False [OF this] show "length (free_list m') < unat cc"
    by (auto simp: JfrMemorySpace_def)
qed

theorem create_mspace_ignores_initialize_witness:
  "\<exists>m' g'. create_mspace product_build 4096 8192 2 (fresh_process [True, True, False])
       = Inr (Some m', g')
     \<and> length (free_list m') < 2
     \<and> initialize product_build (JfrMemorySpace 4096 8192 2)
          ((fresh_process [True, False])\<lparr>next_addr := 4224\<rparr>) = Inr (False, m', g')"
proof -
  have e: "sizeof_Mspace product_build = 128"
    by (simp add: product_build_def)
  have na: "new_array 128 (fresh_process [True, True, False])
      = (Some 4096, (fresh_process [True, False])\<lparr>next_addr := 4224\<rparr>)"
    by (simp add: new_array_def fresh_process_def)
  obtain m' g' where run: "initialize product_build (JfrMemorySpace 4096 8192 2)
      ((fresh_process [True, False])\<lparr>next_addr := 4224\<rparr>) = Inr (False, m', g')"
    by (simp add: run_defs)
  show ?thesis
    using create_mspace_ignores_initialize
      [of product_build "fresh_process [True, True, False]" 4096
         "(fresh_process [True, False])\<lparr>next_addr := 4224\<rparr>" 4096 8192 2 False m' g']
      e na run
    by (intro exI [of _ m'] exI [of _ g']) simp
qed

subsection \<open>\<^verbatim>\<open>release_full\<close> and \<^verbatim>\<open>release_free\<close>\<close>

lemma deallocate_Inr:
  assumes "deallocate e t m g = Inr g1"
  shows "g1 = g\<lparr>heap := (heap g)(t := None)\<rparr>
    \<and> (ASSERT e \<longrightarrow> \<not> in_list t (free_list m) \<and> \<not> in_list t (full_list m))"
  using assms
  by (auto simp: deallocate_def assert_at_def and_then_def deref_def cheap_free_def
      split: if_splits option.splits)

lemma release_full_Inr:
  assumes "release_full e t m g = Inr (m', g')"
  shows "\<exists>b. heap g t = Some b
    \<and> full_list m' = remove t (full_list m)
    \<and> (if transient b \<or> \<not> should_populate_cache e (remove_full t m)
        then free_list m' = free_list m \<and> g' = g\<lparr>heap := (heap g)(t := None)\<rparr>
        else free_list m' = t # free_list m \<and> g' = g)"
proof -
  obtain b where b: "heap g t = Some b"
    using assms
    by (cases "heap g t")
      (auto simp: release_full_def assert_at_def and_then_def deref_def Let_def split: if_splits)
  have "full_list m' = remove t (full_list m)
    \<and> (if transient b \<or> \<not> should_populate_cache e (remove_full t m)
        then free_list m' = free_list m \<and> g' = g\<lparr>heap := (heap g)(t := None)\<rparr>
        else free_list m' = t # free_list m \<and> g' = g)"
    using assms b
    by (auto simp: release_full_def assert_at_def and_then_def deref_def Let_def
        remove_full_def insert_free_head_def prepend_def
        dest!: deallocate_Inr split: if_splits sum.splits)
  with b show ?thesis by blast
qed

lemma release_free_Inr:
  assumes "release_free e t m g = Inr (m', g')"
  shows "\<exists>b. heap g t = Some b
    \<and> full_list m' = full_list m
    \<and> (if transient b \<or> \<not> should_populate_cache e m
        then free_list m' = remove t (free_list m) \<and> g' = g\<lparr>heap := (heap g)(t := None)\<rparr>
        else m' = m \<and> g' = g)"
proof -
  obtain b where b: "heap g t = Some b"
    using assms
    by (cases "heap g t")
      (auto simp: release_free_def assert_at_def and_then_def deref_def Let_def split: if_splits)
  have "full_list m' = full_list m
    \<and> (if transient b \<or> \<not> should_populate_cache e m
        then free_list m' = remove t (free_list m) \<and> g' = g\<lparr>heap := (heap g)(t := None)\<rparr>
        else m' = m \<and> g' = g)"
    using assms b
    by (auto simp: release_free_def assert_at_def and_then_def deref_def Let_def
        remove_free_def
        dest!: deallocate_Inr split: if_splits sum.splits)
  with b show ?thesis by blast
qed

lemma release_full_total:
  assumes "heap g t = Some b"
    "ASSERT e \<longrightarrow> is_locked m \<and> in_list t (full_list m) \<and> \<not> in_list t (free_list m)
       \<and> (\<not> transient b \<longrightarrow> empty b \<and> \<not> retired b \<and> identity b = None)"
  shows "\<exists>m' g'. release_full e t m g = Inr (m', g')"
  using assms
  by (auto simp: release_full_def assert_at_def and_then_def deref_def Let_def
      deallocate_def cheap_free_def remove_full_def remove_def in_list_def)

lemma release_free_total:
  assumes "heap g t = Some b"
    "ASSERT e \<longrightarrow> is_locked m \<and> in_list t (free_list m) \<and> \<not> in_list t (full_list m)
       \<and> (\<not> transient b \<longrightarrow> empty b \<and> \<not> retired b \<and> identity b = None)"
  shows "\<exists>m' g'. release_free e t m g = Inr (m', g')"
  using assms
  by (auto simp: release_free_def assert_at_def and_then_def deref_def Let_def
      deallocate_def cheap_free_def remove_free_def remove_def in_list_def)

text \<open>
  C1. \<^verbatim>\<open>release_full\<close> on a member of the full list, where it returns: the buffer is
  live and leaves the full list; a transient buffer is deallocated whatever the cache
  policy says, and the free list is as before; a buffer that is not transient is prepended
  to the free list when the policy (asked after the removal) holds, and deallocated
  otherwise. \<^verbatim>\<open>release_free\<close> on a member of the free list: a transient buffer is
  removed and deallocated; a buffer that is not transient stays where it is when the policy
  holds, and is removed and deallocated otherwise. A transient buffer that was in one list
  only is in neither list afterwards. Both functions return on a live buffer: always in the
  product build, and in the debug build when their assertions hold.
\<close>

theorem release_full_release_free:
  "(release_full e t m g = Inr (m', g') \<and> in_list t (full_list m) \<longrightarrow>
      (\<exists>b. heap g t = Some b
        \<and> \<not> in_list t (full_list m')
        \<and> (transient b \<longrightarrow> heap g' t = None \<and> free_list m' = free_list m)
        \<and> (\<not> transient b \<and> should_populate_cache e (remove_full t m) \<longrightarrow>
              free_list m' = t # free_list m \<and> g' = g)
        \<and> (\<not> transient b \<and> \<not> should_populate_cache e (remove_full t m) \<longrightarrow>
              heap g' t = None \<and> free_list m' = free_list m)
        \<and> (transient b \<and> \<not> in_list t (free_list m) \<longrightarrow> \<not> in_list t (free_list m'))))
   \<and> (release_free e t m g = Inr (m'', g'') \<and> in_list t (free_list m) \<longrightarrow>
      (\<exists>b. heap g t = Some b
        \<and> full_list m'' = full_list m
        \<and> (transient b \<longrightarrow> heap g'' t = None \<and> \<not> in_list t (free_list m''))
        \<and> (\<not> transient b \<and> should_populate_cache e m \<longrightarrow> m'' = m \<and> g'' = g)
        \<and> (\<not> transient b \<and> \<not> should_populate_cache e m \<longrightarrow>
              heap g'' t = None \<and> \<not> in_list t (free_list m''))
        \<and> (transient b \<and> \<not> in_list t (full_list m) \<longrightarrow> \<not> in_list t (full_list m''))))
   \<and> (heap g t = Some b0
        \<and> (ASSERT e \<longrightarrow> is_locked m \<and> in_list t (full_list m) \<and> \<not> in_list t (free_list m)
              \<and> (\<not> transient b0 \<longrightarrow> empty b0 \<and> \<not> retired b0 \<and> identity b0 = None))
       \<longrightarrow> (\<exists>m' g'. release_full e t m g = Inr (m', g')))
   \<and> (heap g t = Some b0
        \<and> (ASSERT e \<longrightarrow> is_locked m \<and> in_list t (free_list m) \<and> \<not> in_list t (full_list m)
              \<and> (\<not> transient b0 \<longrightarrow> empty b0 \<and> \<not> retired b0 \<and> identity b0 = None))
       \<longrightarrow> (\<exists>m' g'. release_free e t m g = Inr (m', g')))"
proof (intro conjI impI)
  assume "release_full e t m g = Inr (m', g') \<and> in_list t (full_list m)"
  then obtain b where b: "heap g t = Some b" "full_list m' = remove t (full_list m)"
    "if transient b \<or> \<not> should_populate_cache e (remove_full t m)
     then free_list m' = free_list m \<and> g' = g\<lparr>heap := (heap g)(t := None)\<rparr>
     else free_list m' = t # free_list m \<and> g' = g"
    using release_full_Inr [of e t m g m' g'] by blast
  show "\<exists>b. heap g t = Some b
        \<and> \<not> in_list t (full_list m')
        \<and> (transient b \<longrightarrow> heap g' t = None \<and> free_list m' = free_list m)
        \<and> (\<not> transient b \<and> should_populate_cache e (remove_full t m) \<longrightarrow>
              free_list m' = t # free_list m \<and> g' = g)
        \<and> (\<not> transient b \<and> \<not> should_populate_cache e (remove_full t m) \<longrightarrow>
              heap g' t = None \<and> free_list m' = free_list m)
        \<and> (transient b \<and> \<not> in_list t (free_list m) \<longrightarrow> \<not> in_list t (free_list m'))"
    using b by (intro exI [of _ b]) (auto simp: in_list_def remove_def)
next
  assume "release_free e t m g = Inr (m'', g'') \<and> in_list t (free_list m)"
  then obtain b where b: "heap g t = Some b" "full_list m'' = full_list m"
    "if transient b \<or> \<not> should_populate_cache e m
     then free_list m'' = remove t (free_list m) \<and> g'' = g\<lparr>heap := (heap g)(t := None)\<rparr>
     else m'' = m \<and> g'' = g"
    using release_free_Inr [of e t m g m'' g''] by blast
  show "\<exists>b. heap g t = Some b
        \<and> full_list m'' = full_list m
        \<and> (transient b \<longrightarrow> heap g'' t = None \<and> \<not> in_list t (free_list m''))
        \<and> (\<not> transient b \<and> should_populate_cache e m \<longrightarrow> m'' = m \<and> g'' = g)
        \<and> (\<not> transient b \<and> \<not> should_populate_cache e m \<longrightarrow>
              heap g'' t = None \<and> \<not> in_list t (free_list m''))
        \<and> (transient b \<and> \<not> in_list t (full_list m) \<longrightarrow> \<not> in_list t (full_list m''))"
    using b by (intro exI [of _ b]) (auto simp: in_list_def remove_def)
next
  assume "heap g t = Some b0
        \<and> (ASSERT e \<longrightarrow> is_locked m \<and> in_list t (full_list m) \<and> \<not> in_list t (free_list m)
              \<and> (\<not> transient b0 \<longrightarrow> empty b0 \<and> \<not> retired b0 \<and> identity b0 = None))"
  then show "\<exists>m' g'. release_full e t m g = Inr (m', g')"
    using release_full_total [of g t b0 e m] by blast
next
  assume "heap g t = Some b0
        \<and> (ASSERT e \<longrightarrow> is_locked m \<and> in_list t (free_list m) \<and> \<not> in_list t (full_list m)
              \<and> (\<not> transient b0 \<longrightarrow> empty b0 \<and> \<not> retired b0 \<and> identity b0 = None))"
  then show "\<exists>m' g'. release_free e t m g = Inr (m', g')"
    using release_free_total [of g t b0 e m] by blast
qed

lemmas release_defs = release_full_def release_free_def deallocate_def deref_def cheap_free_def
  remove_full_def remove_free_def remove_def in_list_def is_locked_def empty_def
  free_count_below_cache_count_def two_buffers_def both_full_def both_free_def
  set_transient_def T_initialize_def Let_def

theorem release_full_release_free_witness:
  "(\<exists>m' g'. release_full debug_build 4096 both_full two_buffers = Inr (m', g')
       \<and> full_list m' = [8256] \<and> free_list m' = [] \<and> heap g' 4096 = None)
   \<and> (\<exists>m'. release_full debug_build 8256 both_full two_buffers = Inr (m', two_buffers)
       \<and> full_list m' = [4096] \<and> free_list m' = [8256])
   \<and> (\<exists>m' g'. release_free debug_build 4096 both_free two_buffers = Inr (m', g')
       \<and> free_list m' = [8256] \<and> full_list m' = [] \<and> heap g' 4096 = None)
   \<and> (\<exists>m' g'. release_free debug_build 8256 both_free two_buffers = Inr (m', g')
       \<and> free_list m' = [4096] \<and> heap g' 8256 = None)
   \<and> release_free debug_build 8256 (both_free\<lparr>cache_count := 3\<rparr>) two_buffers
        = Inr (both_free\<lparr>cache_count := 3\<rparr>, two_buffers)
   \<and> (\<exists>m' g'. release_full product_build 4096 (unlock both_full) two_buffers = Inr (m', g'))
   \<and> (\<exists>m' g'. release_free product_build 4096 (unlock both_free) two_buffers = Inr (m', g'))"
proof -
  note T6 = release_full_release_free
    [of product_build 4096 "unlock both_full" two_buffers _ _ _ _
      "set_transient (T_initialize 4096 64 4096)"]
  note T7 = release_full_release_free
    [of product_build 4096 "unlock both_free" two_buffers _ _ _ _
      "set_transient (T_initialize 4096 64 4096)"]
  have p: "\<not> ASSERT product_build"
    "heap two_buffers 4096 = Some (set_transient (T_initialize 4096 64 4096))"
    by (simp_all add: product_build_def two_buffers_def)
  have c6: "\<exists>m' g'. release_full product_build 4096 (unlock both_full) two_buffers = Inr (m', g')"
    using T6 p by blast
  have c7: "\<exists>m' g'. release_free product_build 4096 (unlock both_free) two_buffers = Inr (m', g')"
    using T7 p by blast
  obtain m1 g1 where r1: "release_full debug_build 4096 both_full two_buffers = Inr (m1, g1)"
    and v1: "full_list m1 = [8256]"
    by (simp add: run_defs release_defs)
  obtain m2 g2 where r2: "release_full debug_build 8256 both_full two_buffers = Inr (m2, g2)"
    and v2: "full_list m2 = [4096]"
    by (simp add: run_defs release_defs)
  obtain m3 g3 where r3: "release_free debug_build 4096 both_free two_buffers = Inr (m3, g3)"
    and v3: "free_list m3 = [8256]"
    by (simp add: run_defs release_defs)
  obtain m4 g4 where r4: "release_free debug_build 8256 both_free two_buffers = Inr (m4, g4)"
    and v4: "free_list m4 = [4096]"
    by (simp add: run_defs release_defs)
  obtain m5 g5 where r5: "release_free debug_build 8256 (both_free\<lparr>cache_count := 3\<rparr>) two_buffers
      = Inr (m5, g5)"
    by (simp add: run_defs release_defs)
  have facts:
    "heap two_buffers 4096 = Some (set_transient (T_initialize 4096 64 4096))"
    "heap two_buffers 8256 = Some (T_initialize 8256 64 4096)"
    "transient (set_transient (T_initialize 4096 64 4096))"
    "\<not> transient (T_initialize 8256 64 4096)"
    "in_list 4096 (full_list both_full)" "in_list 8256 (full_list both_full)"
    "in_list 4096 (free_list both_free)" "in_list 8256 (free_list both_free)"
    "in_list 8256 (free_list (both_free\<lparr>cache_count := 3\<rparr>))"
    "free_list both_full = []" "full_list both_free = []"
    "should_populate_cache debug_build (remove_full 8256 both_full)"
    "\<not> should_populate_cache debug_build both_free"
    "should_populate_cache debug_build (both_free\<lparr>cache_count := 3\<rparr>)"
    by (simp_all add: run_defs release_defs)
  note T1 = release_full_release_free
    [of debug_build 4096 both_full two_buffers m1 g1 m3 g3]
  note T2 = release_full_release_free
    [of debug_build 8256 both_full two_buffers m2 g2 m4 g4]
  note T3 = release_full_release_free
    [of debug_build 4096 both_free two_buffers m1 g1 m3 g3]
  note T4 = release_full_release_free
    [of debug_build 8256 both_free two_buffers m2 g2 m4 g4]
  note T5 = release_full_release_free
    [of debug_build 8256 "both_free\<lparr>cache_count := 3\<rparr>" two_buffers m2 g2 m5 g5]
  have c1: "free_list m1 = [] \<and> heap g1 4096 = None"
    using T1 r1 facts by auto
  have c2: "free_list m2 = [8256] \<and> g2 = two_buffers"
    using T2 r2 facts by auto
  have c3: "full_list m3 = [] \<and> heap g3 4096 = None"
    using T3 r3 facts by auto
  have c4: "heap g4 8256 = None"
    using T4 r4 facts by auto
  have c5: "m5 = both_free\<lparr>cache_count := 3\<rparr> \<and> g5 = two_buffers"
    using T5 r5 facts by auto
  show ?thesis
    using r1 v1 c1 r2 v2 c2 r3 v3 c3 r4 v4 c4 r5 c5 c6 c7 by simp
qed

subsection \<open>\<^verbatim>\<open>mspace_get_free_with_retry\<close>\<close>

lemma retry_loop_result:
  assumes "mspace_get_free_with_retry_loop e sz m rc thr i g = Inr (r, g')" "i \<le> rc"
  shows "(r = None \<longrightarrow> failed_attempts e sz m thr (unat rc - unat i) g = Some g')
    \<and> (\<forall>t. r = Some t \<longrightarrow>
          (\<exists>k<unat rc - unat i. \<exists>g1. failed_attempts e sz m thr k g = Some g1
              \<and> mspace_get_free e sz m thr g1 = Inr (Some t, g')))"
  using assms
proof (induction e sz m rc thr i g rule: mspace_get_free_with_retry_loop.induct)
  case (1 e sz m rc thr i g)
  show ?case
  proof (cases "i < rc")
    case False
    then have "i = rc" using "1.prems"(2) by simp
    moreover have "r = None \<and> g' = g"
      using "1.prems"(1) False by (subst (asm) mspace_get_free_with_retry_loop.simps) simp
    ultimately show ?thesis by simp
  next
    case True
    have ui: "unat (i + 1) = Suc (unat i)"
      using True by (rule unat_succ_less)
    have lt: "unat i < unat rc"
      using True by (simp add: word_less_nat_alt)
    have le: "i + 1 \<le> rc"
      using ui lt by (simp add: word_le_nat_alt)
    have eq: "(case mspace_get_free e sz m thr g of
                 Inl err \<Rightarrow> Inl err
               | Inr (Some t, g1) \<Rightarrow> Inr (Some t, g1)
               | Inr (None, g1) \<Rightarrow> mspace_get_free_with_retry_loop e sz m rc thr (i + 1) g1)
              = Inr (r, g')"
      using "1.prems"(1) True by (subst (asm) mspace_get_free_with_retry_loop.simps) simp
    then obtain r1 g1 where gf: "mspace_get_free e sz m thr g = Inr (r1, g1)"
      by (cases "mspace_get_free e sz m thr g") auto
    show ?thesis
    proof (cases r1)
      case (Some t)
      then have rt: "r = Some t" "g' = g1" using eq gf by simp_all
      have "\<exists>k<unat rc - unat i. \<exists>g2. failed_attempts e sz m thr k g = Some g2
          \<and> mspace_get_free e sz m thr g2 = Inr (Some t, g')"
        using gf Some lt rt by (intro exI [of _ 0] exI [of _ g]) simp
      then show ?thesis using rt by simp
    next
      case None
      then have gf': "mspace_get_free e sz m thr g = Inr (None, g1)"
        and rec: "mspace_get_free_with_retry_loop e sz m rc thr (i + 1) g1 = Inr (r, g')"
        using eq gf by simp_all
      note IH = "1.IH" [OF True gf' refl refl rec le]
      have step: "failed_attempts e sz m thr (Suc k) g = failed_attempts e sz m thr k g1" for k
        using gf' by simp
      have d: "unat rc - unat i = Suc (unat rc - unat (i + 1))"
        using ui lt by simp
      show ?thesis
      proof (intro conjI allI impI)
        assume "r = None"
        then show "failed_attempts e sz m thr (unat rc - unat i) g = Some g'"
          using IH step d by simp
      next
        fix t assume "r = Some t"
        then obtain k g2 where k: "k < unat rc - unat (i + 1)"
          "failed_attempts e sz m thr k g1 = Some g2"
          "mspace_get_free e sz m thr g2 = Inr (Some t, g')"
          using IH by blast
        then have "Suc k < unat rc - unat i" "failed_attempts e sz m thr (Suc k) g = Some g2"
          using d step by simp_all
        with k(3) show "\<exists>k<unat rc - unat i. \<exists>g1. failed_attempts e sz m thr k g = Some g1
              \<and> mspace_get_free e sz m thr g1 = Inr (Some t, g')"
          by blast
      qed
    qed
  qed
qed

lemma retry_loop_error:
  assumes "mspace_get_free_with_retry_loop e sz m rc thr i g = Inl err" "i \<le> rc"
  shows "\<exists>k<unat rc - unat i. \<exists>g1. failed_attempts e sz m thr k g = Some g1
              \<and> mspace_get_free e sz m thr g1 = Inl err"
  using assms
proof (induction e sz m rc thr i g rule: mspace_get_free_with_retry_loop.induct)
  case (1 e sz m rc thr i g)
  show ?case
  proof (cases "i < rc")
    case False
    then have False
      using "1.prems"(1) by (subst (asm) mspace_get_free_with_retry_loop.simps) simp
    then show ?thesis ..
  next
    case True
    have ui: "unat (i + 1) = Suc (unat i)"
      using True by (rule unat_succ_less)
    have lt: "unat i < unat rc"
      using True by (simp add: word_less_nat_alt)
    have le: "i + 1 \<le> rc"
      using ui lt by (simp add: word_le_nat_alt)
    have eq: "(case mspace_get_free e sz m thr g of
                 Inl err \<Rightarrow> Inl err
               | Inr (Some t, g1) \<Rightarrow> Inr (Some t, g1)
               | Inr (None, g1) \<Rightarrow> mspace_get_free_with_retry_loop e sz m rc thr (i + 1) g1)
              = Inl err"
      using "1.prems"(1) True by (subst (asm) mspace_get_free_with_retry_loop.simps) simp
    show ?thesis
    proof (cases "mspace_get_free e sz m thr g")
      case (Inl err')
      then have "mspace_get_free e sz m thr g = Inl err" using eq by simp
      moreover have "failed_attempts e sz m thr 0 g = Some g" by simp
      ultimately show ?thesis using lt by (intro exI [of _ 0] exI [of _ g]) simp
    next
      case (Inr x)
      obtain r1 g1 where x: "x = (r1, g1)" by (cases x)
      show ?thesis
      proof (cases r1)
        case (Some t)
        then have False using eq Inr x by simp
        then show ?thesis ..
      next
        case None
        then have gf': "mspace_get_free e sz m thr g = Inr (None, g1)"
          and rec: "mspace_get_free_with_retry_loop e sz m rc thr (i + 1) g1 = Inl err"
          using eq Inr x by simp_all
        obtain k g2 where k: "k < unat rc - unat (i + 1)"
          "failed_attempts e sz m thr k g1 = Some g2"
          "mspace_get_free e sz m thr g2 = Inl err"
          using "1.IH" [OF True gf' refl refl rec le] by blast
        have "Suc k < unat rc - unat i" "failed_attempts e sz m thr (Suc k) g = Some g2"
          using k ui lt gf' by simp_all
        with k(3) show ?thesis by blast
      qed
    qed
  qed
qed

lemma no_allocation_refl: "no_allocation g g"
  by (simp add: no_allocation_def)

lemma no_allocation_trans: "no_allocation g g1 \<Longrightarrow> no_allocation g1 g2 \<Longrightarrow> no_allocation g g2"
  by (simp add: no_allocation_def)

lemma failed_attempts_no_allocation:
  assumes "\<And>g0 r0 g1. mspace_get_free e sz m thr g0 = Inr (r0, g1) \<Longrightarrow> no_allocation g0 g1"
    "failed_attempts e sz m thr k g = Some g'"
  shows "no_allocation g g'"
  using assms(2)
proof (induction k arbitrary: g)
  case 0
  then show ?case by (simp add: no_allocation_refl)
next
  case (Suc k)
  then obtain g1 where g1: "mspace_get_free e sz m thr g = Inr (None, g1)"
    "failed_attempts e sz m thr k g1 = Some g'"
    by (auto split: sum.splits prod.splits option.splits)
  show ?case
    using no_allocation_trans [OF assms(1) [OF g1(1)] Suc.IH [OF g1(2)]] .
qed

lemma with_retry_Inr:
  assumes "mspace_get_free_with_retry e sz m rc thr g = Inr x"
  shows "mspace_get_free_with_retry_loop e sz m rc thr 0 g = Inr x"
  using assms by (auto simp: mspace_get_free_with_retry_def assert_at_def split: if_splits)

lemma first_fit_live: "first_fit sz g ts = Some t \<Longrightarrow> heap g t \<noteq> None"
  by (induction ts) (auto split: option.splits if_splits)

lemma get_first_fit_no_allocation:
  assumes "get_first_fit sz thr m g = Inr (r, g1)"
  shows "no_allocation g g1"
proof (cases "first_fit sz g (free_list m)")
  case None
  then show ?thesis using assms by (simp add: get_first_fit_def no_allocation_def)
next
  case (Some t)
  then obtain b where "heap g t = Some b"
    using first_fit_live [of sz g "free_list m" t] by auto
  then show ?thesis using assms Some
    by (auto simp: get_first_fit_def no_allocation_def modify_def and_then_def
        split: if_splits)
qed

lemmas retry_defs = mspace_get_free_with_retry_def mspace_get_free_with_retry_loop.simps
  mspace_get_free_def get_first_fit_def modify_def acquire_def free_size_def
  two_buffers_def both_free_def both_full_def set_transient_def T_initialize_def

text \<open>
  C3. Where \<^verbatim>\<open>mspace_get_free_with_retry\<close> returns with retry bound \<open>rc\<close>: a
  \<^verbatim>\<open>NULL\<close> result comes after exactly \<open>rc\<close> calls of \<^verbatim>\<open>mspace_get_free\<close> that
  all returned \<^verbatim>\<open>NULL\<close>; a buffer is the result of call number \<open>k + 1\<close> for some
  \<open>k < rc\<close>, after \<open>k\<close> calls that returned \<^verbatim>\<open>NULL\<close>, so it is the first result
  that is not \<^verbatim>\<open>NULL\<close>; the state changes by these calls only, so when the retrieval
  policy does not allocate, nothing is allocated. With bound 0 the result is \<^verbatim>\<open>NULL\<close>
  and the state is as before.
\<close>

theorem mspace_get_free_with_retry_attempts:
  "(mspace_get_free_with_retry e sz m rc thr g = Inr (r, g') \<longrightarrow>
      (r = None \<longrightarrow> failed_attempts e sz m thr (unat rc) g = Some g')
      \<and> (\<forall>t. r = Some t \<longrightarrow>
            (\<exists>k<unat rc. \<exists>g1. failed_attempts e sz m thr k g = Some g1
                \<and> mspace_get_free e sz m thr g1 = Inr (Some t, g')))
      \<and> ((\<forall>g0 r0 g1. mspace_get_free e sz m thr g0 = Inr (r0, g1) \<longrightarrow> no_allocation g0 g1)
            \<longrightarrow> no_allocation g g'))
   \<and> ((ASSERT e \<longrightarrow> sz \<le> min_elem_size m) \<longrightarrow>
        mspace_get_free_with_retry e sz m 0 thr g = Inr (None, g))"
proof (intro conjI impI allI)
  assume "mspace_get_free_with_retry e sz m rc thr g = Inr (r, g')"
  then have run: "mspace_get_free_with_retry_loop e sz m rc thr 0 g = Inr (r, g')"
    by (rule with_retry_Inr)
  note R = retry_loop_result [OF run, simplified]
  show none: "failed_attempts e sz m thr (unat rc) g = Some g'" if "r = None"
    using R that by simp
  show some: "\<exists>k<unat rc. \<exists>g1. failed_attempts e sz m thr k g = Some g1
      \<and> mspace_get_free e sz m thr g1 = Inr (Some t, g')" if "r = Some t" for t
    using R that by simp
  assume get: "\<forall>g0 r0 g1. mspace_get_free e sz m thr g0 = Inr (r0, g1) \<longrightarrow> no_allocation g0 g1"
  show "no_allocation g g'"
  proof (cases r)
    case None
    from none [OF this] show ?thesis
      using failed_attempts_no_allocation [of e sz m thr "unat rc" g g'] get by blast
  next
    case (Some t)
    from some [OF this] obtain k g1 where k: "failed_attempts e sz m thr k g = Some g1"
      "mspace_get_free e sz m thr g1 = Inr (Some t, g')"
      by blast
    have "no_allocation g g1"
      using failed_attempts_no_allocation [of e sz m thr k g g1] get k(1) by blast
    moreover have "no_allocation g1 g'"
      using get k(2) by blast
    ultimately show ?thesis by (rule no_allocation_trans)
  qed
next
  assume "ASSERT e \<longrightarrow> sz \<le> min_elem_size m"
  then show "mspace_get_free_with_retry e sz m 0 thr g = Inr (None, g)"
    by (auto simp: mspace_get_free_with_retry_def assert_at_def
        mspace_get_free_with_retry_loop.simps)
qed

theorem mspace_get_free_with_retry_attempts_witness:
  "mspace_get_free_with_retry debug_build 100 (JfrMemorySpace 4096 8192 2) 3 1 (fresh_process [])
     = Inr (None, fresh_process [])
   \<and> failed_attempts debug_build 100 (JfrMemorySpace 4096 8192 2) 1 3 (fresh_process [])
     = Some (fresh_process [])
   \<and> (\<exists>g'. mspace_get_free_with_retry debug_build 100 both_free 3 1 two_buffers
          = Inr (Some 4096, g')
        \<and> no_allocation two_buffers g'
        \<and> (\<exists>k<3. \<exists>g1. failed_attempts debug_build 100 both_free 1 k two_buffers = Some g1
              \<and> mspace_get_free debug_build 100 both_free 1 g1 = Inr (Some 4096, g')))
   \<and> mspace_get_free_with_retry debug_build 100 both_free 0 1 two_buffers
     = Inr (None, two_buffers)"
proof -
  have r1: "mspace_get_free_with_retry debug_build 100 (JfrMemorySpace 4096 8192 2) 3 1
      (fresh_process []) = Inr (None, fresh_process [])"
    by (simp add: run_defs retry_defs)
  obtain g2 where r2: "mspace_get_free_with_retry debug_build 100 both_free 3 1 two_buffers
      = Inr (Some 4096, g2)"
    by (simp add: run_defs retry_defs)
  have get: "\<forall>g0 r0 g1. mspace_get_free debug_build 100 both_free 1 g0 = Inr (r0, g1)
      \<longrightarrow> no_allocation g0 g1"
    using get_first_fit_no_allocation
    by (simp add: mspace_get_free_def debug_build_def product_build_def)
  have pre: "ASSERT debug_build \<longrightarrow> (100 :: size_t) \<le> min_elem_size both_free"
    by (simp add: both_free_def)
  note T1 = mspace_get_free_with_retry_attempts
    [of debug_build 100 "JfrMemorySpace 4096 8192 2" 3 1 "fresh_process []" None
      "fresh_process []"]
  note T2 = mspace_get_free_with_retry_attempts
    [of debug_build 100 both_free 3 1 two_buffers "Some 4096" g2]
  have c1: "failed_attempts debug_build 100 (JfrMemorySpace 4096 8192 2) 1 3 (fresh_process [])
      = Some (fresh_process [])"
    using T1 r1 by simp
  have c2: "no_allocation two_buffers g2
      \<and> (\<exists>k<3. \<exists>g1. failed_attempts debug_build 100 both_free 1 k two_buffers = Some g1
            \<and> mspace_get_free debug_build 100 both_free 1 g1 = Inr (Some 4096, g2))"
    using T2 r2 get by simp
  have c3: "mspace_get_free_with_retry debug_build 100 both_free 0 1 two_buffers
      = Inr (None, two_buffers)"
    using T2 pre by blast
  show ?thesis
    using r1 c1 r2 c2 c3 by blast
qed

text \<open>
  C10. The assertion \<^verbatim>\<open>size <= mspace->min_elem_size()\<close> is the only check of the
  size. When the size is at most \<open>min_elem_size\<close> the assertion passes in either build:
  the function is its loop, and an error it ends with is the error of one of its calls of
  \<^verbatim>\<open>mspace_get_free\<close>. When the size is greater, the debug build fails at line 279
  whatever the retrieval policy is (no call is made), and the product build runs the loop
  unchecked.
\<close>

theorem mspace_get_free_with_retry_assertion:
  "(sz \<le> min_elem_size m \<longrightarrow>
      mspace_get_free_with_retry e sz m rc thr g
        = mspace_get_free_with_retry_loop e sz m rc thr 0 g
      \<and> (\<forall>err. mspace_get_free_with_retry e sz m rc thr g = Inl err \<longrightarrow>
            (\<exists>k<unat rc. \<exists>g1. failed_attempts e sz m thr k g = Some g1
                \<and> mspace_get_free e sz m thr g1 = Inl err)))
   \<and> (min_elem_size m < sz \<and> ASSERT e \<longrightarrow>
        (\<forall>f. mspace_get_free_with_retry (e\<lparr>get := f\<rparr>) sz m rc thr g
               = Inl (assertion_failed 279)))
   \<and> (min_elem_size m < sz \<and> \<not> ASSERT e \<longrightarrow>
        mspace_get_free_with_retry e sz m rc thr g
          = mspace_get_free_with_retry_loop e sz m rc thr 0 g)"
proof (intro conjI impI allI)
  assume le: "sz \<le> min_elem_size m"
  then show eq: "mspace_get_free_with_retry e sz m rc thr g
        = mspace_get_free_with_retry_loop e sz m rc thr 0 g"
    by (simp add: mspace_get_free_with_retry_def assert_at_def)
  fix err assume "mspace_get_free_with_retry e sz m rc thr g = Inl err"
  then have "mspace_get_free_with_retry_loop e sz m rc thr 0 g = Inl err"
    using eq by simp
  from retry_loop_error [OF this] show "\<exists>k<unat rc. \<exists>g1.
      failed_attempts e sz m thr k g = Some g1 \<and> mspace_get_free e sz m thr g1 = Inl err"
    by simp
next
  fix f assume "min_elem_size m < sz \<and> ASSERT e"
  then show "mspace_get_free_with_retry (e\<lparr>get := f\<rparr>) sz m rc thr g
      = Inl (assertion_failed 279)"
    by (simp add: mspace_get_free_with_retry_def assert_at_def not_le)
next
  assume "min_elem_size m < sz \<and> \<not> ASSERT e"
  then show "mspace_get_free_with_retry e sz m rc thr g
      = mspace_get_free_with_retry_loop e sz m rc thr 0 g"
    by (simp add: mspace_get_free_with_retry_def assert_at_def)
qed

theorem mspace_get_free_with_retry_assertion_witness:
  "mspace_get_free_with_retry debug_build 100 both_free 3 1 two_buffers
     = mspace_get_free_with_retry_loop debug_build 100 both_free 3 1 0 two_buffers
   \<and> mspace_get_free_with_retry
        (debug_build\<lparr>get := \<lambda>sz thr m g. Inl invalid_pointer\<rparr>) 100 both_free 3 1 two_buffers
     = Inl invalid_pointer
   \<and> (\<exists>k<3. \<exists>g1.
        failed_attempts (debug_build\<lparr>get := \<lambda>sz thr m g. Inl invalid_pointer\<rparr>)
          100 both_free 1 k two_buffers = Some g1
        \<and> mspace_get_free (debug_build\<lparr>get := \<lambda>sz thr m g. Inl invalid_pointer\<rparr>)
            100 both_free 1 g1 = Inl invalid_pointer)
   \<and> mspace_get_free_with_retry debug_build 5000 both_free 3 1 two_buffers
     = Inl (assertion_failed 279)
   \<and> mspace_get_free_with_retry product_build 5000 both_free 3 1 two_buffers
     = Inr (None, two_buffers)"
proof -
  let ?bad = "debug_build\<lparr>get := \<lambda>sz thr m g. Inl invalid_pointer\<rparr>"
  have pre: "(100 :: size_t) \<le> min_elem_size both_free" "min_elem_size both_free < 5000"
    "ASSERT debug_build" "\<not> ASSERT product_build" "debug_build\<lparr>get := get_first_fit\<rparr> = debug_build"
    by (simp_all add: both_free_def debug_build_def product_build_def)
  have r2: "mspace_get_free_with_retry ?bad 100 both_free 3 1 two_buffers = Inl invalid_pointer"
    by (simp add: run_defs retry_defs)
  have r3: "mspace_get_free_with_retry_loop product_build 5000 both_free 3 1 0 two_buffers
      = Inr (None, two_buffers)"
    by (simp add: run_defs retry_defs)
  note T1 = mspace_get_free_with_retry_assertion [of 100 both_free debug_build 3 1 two_buffers]
  note T2 = mspace_get_free_with_retry_assertion [of 100 both_free ?bad 3 1 two_buffers]
  note T3 = mspace_get_free_with_retry_assertion [of 5000 both_free debug_build 3 1 two_buffers]
  note T4 = mspace_get_free_with_retry_assertion [of 5000 both_free product_build 3 1 two_buffers]
  have c1: "mspace_get_free_with_retry debug_build 100 both_free 3 1 two_buffers
     = mspace_get_free_with_retry_loop debug_build 100 both_free 3 1 0 two_buffers"
    using T1 pre by blast
  have c2: "\<exists>k<3. \<exists>g1. failed_attempts ?bad 100 both_free 1 k two_buffers = Some g1
        \<and> mspace_get_free ?bad 100 both_free 1 g1 = Inl invalid_pointer"
    using T2 pre r2 by simp
  have "\<forall>f. mspace_get_free_with_retry (debug_build\<lparr>get := f\<rparr>) 5000 both_free 3 1 two_buffers
      = Inl (assertion_failed 279)"
    using T3 pre by blast
  then have c3: "mspace_get_free_with_retry debug_build 5000 both_free 3 1 two_buffers
      = Inl (assertion_failed 279)"
    using pre(5) by metis
  have c4: "mspace_get_free_with_retry product_build 5000 both_free 3 1 two_buffers
     = Inr (None, two_buffers)"
    using T4 pre r3 by simp
  show ?thesis
    using c1 r2 c2 c3 c4 by blast
qed

subsection \<open>\<^verbatim>\<open>migrate_outstanding_writes\<close>\<close>

lemma write_bytes_at:
  "write_bytes dst xs mem a =
     (if dst \<le> a \<and> a < dst + length xs then xs ! (a - dst) else mem a)"
proof (induction xs arbitrary: dst mem)
  case Nil
  then show ?case by auto
next
  case (Cons x xs)
  show ?case
    by (auto simp: Cons.IH nth_Cons' Suc_diff_le)
qed

lemma memcpy_at:
  "memcpy dst src n mem a =
     (if dst \<le> a \<and> a < dst + n then mem (src + (a - dst)) else mem a)"
  by (auto simp: memcpy_def write_bytes_at read_bytes_def)

text \<open>Line 448 compares the wrapped sum: with \<open>used = 2 ^ 64 - 1\<close> the sum is
  \<open>pos - 1\<close>, and all three assertions hold.\<close>

lemma assert_migration_state_wraps:
  "assert_migration_state two_buffers 4096 8256 (- 1) 1 = Inr ()"
proof -
  have "unat (- 1 :: size_t) = 2 ^ 64 - 1"
    by (simp add: unsigned_minus_1_eq_mask mask_eq_exp_minus_1)
  then show ?thesis
    by (simp add: assert_migration_state_def and_then_def deref_def assert_at_def
        two_buffers_def set_transient_def T_initialize_def free_size_def)
qed

text \<open>
  C7. For two live buffers, when the free size of the new buffer is at least
  \<open>used + requested\<close>, the old buffer has \<open>start \<le> pos\<close> and \<open>pos + used \<le> end\<close>, and
  neither \<open>pos + used\<close> of the old buffer nor \<open>pos + used\<close> of the new buffer leaves the
  64-bit address space: \<^verbatim>\<open>migrate_outstanding_writes\<close> returns (the assertions of the
  debug build hold); byte \<open>i\<close> from the new buffer's \<open>pos\<close> is then byte \<open>i\<close> from the
  old buffer's \<open>pos\<close> as it was before, for every \<open>i < used\<close>; every byte outside these
  \<open>used\<close> bytes is as before; the buffers and their cursors are as before; and with
  \<open>used = 0\<close> nothing changes.
\<close>

theorem migrate_outstanding_writes_copies:
  "heap g old = Some ob \<and> heap g new_buffer = Some nb
     \<and> unat used + unat requested \<le> unat (free_size nb)
     \<and> buf_start ob \<le> buf_pos ob \<and> buf_pos ob + unat used \<le> buf_end ob
     \<and> buf_pos ob + unat used < 2 ^ 64 \<and> buf_pos nb + unat used < 2 ^ 64
   \<longrightarrow> (\<exists>g'. migrate_outstanding_writes e old new_buffer used requested g = Inr g'
          \<and> (\<forall>i<unat used. memory g' (buf_pos nb + i) = memory g (buf_pos ob + i))
          \<and> (\<forall>a. a < buf_pos nb \<or> buf_pos nb + unat used \<le> a \<longrightarrow> memory g' a = memory g a)
          \<and> heap g' = heap g
          \<and> (used = 0 \<longrightarrow> g' = g))"
proof
  assume h: "heap g old = Some ob \<and> heap g new_buffer = Some nb
     \<and> unat used + unat requested \<le> unat (free_size nb)
     \<and> buf_start ob \<le> buf_pos ob \<and> buf_pos ob + unat used \<le> buf_end ob
     \<and> buf_pos ob + unat used < 2 ^ 64 \<and> buf_pos nb + unat used < 2 ^ 64"
  have "unat (free_size nb) < 2 ^ 64"
    using unsigned_less [of "free_size nb"] by simp
  then have "unat (used + requested) = unat used + unat requested"
    using h by (simp add: unat_word_ariths)
  then have fs: "used + requested \<le> free_size nb"
    using h by (simp add: word_le_nat_alt)
  have sum: "(buf_pos ob + unat used) mod 2 ^ 64 \<le> buf_end ob"
    using h by simp
  have ok: "assert_migration_state g old new_buffer used requested = Inr ()"
    using h fs sum
    by (simp add: assert_migration_state_def and_then_def deref_def assert_at_def)
  let ?g' = "g\<lparr>memory := memcpy (buf_pos nb) (buf_pos ob) (unat used) (memory g)\<rparr>"
  show "\<exists>g'. migrate_outstanding_writes e old new_buffer used requested g = Inr g'
          \<and> (\<forall>i<unat used. memory g' (buf_pos nb + i) = memory g (buf_pos ob + i))
          \<and> (\<forall>a. a < buf_pos nb \<or> buf_pos nb + unat used \<le> a \<longrightarrow> memory g' a = memory g a)
          \<and> heap g' = heap g
          \<and> (used = 0 \<longrightarrow> g' = g)"
  proof (cases "used = 0")
    case True
    then have "migrate_outstanding_writes e old new_buffer used requested g = Inr g"
      using ok by (simp add: migrate_outstanding_writes_def and_then_def)
    then show ?thesis using True by simp
  next
    case False
    then have "0 < used" by (simp add: word_greater_zero_iff)
    then have "migrate_outstanding_writes e old new_buffer used requested g = Inr ?g'"
      using ok h by (simp add: migrate_outstanding_writes_def and_then_def deref_def)
    then show ?thesis using False
      by (intro exI [of _ ?g']) (auto simp: memcpy_at)
  qed
qed

theorem migrate_outstanding_writes_copies_witness:
  "(\<exists>g'. migrate_outstanding_writes debug_build 4096 8256 3 5
            (two_buffers\<lparr>memory := word_of_nat\<rparr>) = Inr g'
        \<and> memory g' 8320 = 64 \<and> memory g' 8321 = 65 \<and> memory g' 8322 = 66
        \<and> memory g' 8319 = 127 \<and> memory g' 8323 = 131)
   \<and> migrate_outstanding_writes debug_build 4096 8256 0 5 (two_buffers\<lparr>memory := word_of_nat\<rparr>)
        = Inr (two_buffers\<lparr>memory := word_of_nat\<rparr>)"
proof -
  let ?g = "two_buffers\<lparr>memory := word_of_nat\<rparr>"
  let ?ob = "set_transient (T_initialize 4096 64 4096)"
  let ?nb = "T_initialize 8256 64 4096"
  have pre: "heap ?g 4096 = Some ?ob" "heap ?g 8256 = Some ?nb"
    "unat (3 :: size_t) + unat (5 :: size_t) \<le> unat (free_size ?nb)"
    "unat (0 :: size_t) + unat (5 :: size_t) \<le> unat (free_size ?nb)"
    "buf_start ?ob \<le> buf_pos ?ob" "buf_pos ?ob + unat (3 :: size_t) \<le> buf_end ?ob"
    "buf_pos ?ob + unat (0 :: size_t) \<le> buf_end ?ob"
    "buf_pos ?ob + unat (3 :: size_t) < 2 ^ 64" "buf_pos ?nb + unat (3 :: size_t) < 2 ^ 64"
    "buf_pos ?ob + unat (0 :: size_t) < 2 ^ 64" "buf_pos ?nb + unat (0 :: size_t) < 2 ^ 64"
    "buf_pos ?ob = 4160" "buf_pos ?nb = 8320"
    by (simp_all add: two_buffers_def set_transient_def T_initialize_def free_size_def)
  note T1 = migrate_outstanding_writes_copies [of ?g 4096 ?ob 8256 ?nb 3 5 debug_build]
  note T2 = migrate_outstanding_writes_copies [of ?g 4096 ?ob 8256 ?nb 0 5 debug_build]
  obtain g' where g': "migrate_outstanding_writes debug_build 4096 8256 3 5 ?g = Inr g'"
    "\<forall>i<unat (3 :: size_t). memory g' (8320 + i) = memory ?g (4160 + i)"
    "\<forall>a. a < 8320 \<or> 8320 + unat (3 :: size_t) \<le> a \<longrightarrow> memory g' a = memory ?g a"
    using T1 pre by auto
  have "memory g' (8320 + 0) = memory ?g (4160 + 0)"
    using g'(2) [rule_format, of 0] by simp
  moreover have "memory g' (8320 + 1) = memory ?g (4160 + 1)"
    using g'(2) [rule_format, of 1] by simp
  moreover have "memory g' (8320 + 2) = memory ?g (4160 + 2)"
    using g'(2) [rule_format, of 2] by simp
  moreover have "memory g' 8319 = memory ?g 8319"
    using g'(3) [rule_format, of 8319] by simp
  moreover have "memory g' 8323 = memory ?g 8323"
    using g'(3) [rule_format, of 8323] by simp
  ultimately have c1: "memory g' 8320 = 64 \<and> memory g' 8321 = 65 \<and> memory g' 8322 = 66
        \<and> memory g' 8319 = 127 \<and> memory g' 8323 = 131"
    by simp
  have c2: "migrate_outstanding_writes debug_build 4096 8256 0 5 ?g = Inr ?g"
    using T2 pre by auto
  show ?thesis
    using g'(1) c1 c2 by blast
qed

subsection \<open>The allocating functions\<close>

lemma allocate_Some:
  assumes "allocate e sz m g = Inr (Some t, g1)"
  shows "t = next_addr g \<and> next_addr g < next_addr g1
    \<and> (\<exists>a. align_allocation_size e sz (min_elem_size m) = Inr a
          \<and> heap g1 = (heap g)(t \<mapsto> T_initialize t (sizeof_T e) a))
    \<and> size_adjustment_static g1 = size_adjustment_static g"
proof -
  obtain a where a: "align_allocation_size e sz (min_elem_size m) = Inr a"
    using assms by (cases "align_allocation_size e sz (min_elem_size m)")
      (auto simp: allocate_def and_then_def)
  obtain g0 where n: "new_array (a + sizeof_T e) g = (Some t, g0)"
    and g1: "g1 = g0\<lparr>heap := (heap g0)(t \<mapsto> T_initialize t (sizeof_T e) a)\<rparr>"
    using assms a
    by (auto simp: allocate_def and_then_def split: prod.splits option.splits if_splits)
  have "size_adjustment_static g0 = size_adjustment_static g"
    using n by (auto simp: new_array_def split: list.splits if_splits)
  then show ?thesis
    using new_array_Some [OF n] g1 a by simp
qed

lemma size_adjustment_state:
  assumes "size_adjustment sz m g = (sz1, g1)"
  shows "heap g1 = heap g \<and> next_addr g1 = next_addr g \<and> alloc_script g1 = alloc_script g
    \<and> memory g1 = memory g
    \<and> size_adjustment_static g1 = Some (case size_adjustment_static g of
          None \<Rightarrow> min_elem_size m | Some c \<Rightarrow> c)
    \<and> sz1 = (let c = (case size_adjustment_static g of None \<Rightarrow> min_elem_size m | Some c \<Rightarrow> c)
             in if sz < c then c else sz)"
  using assms by (auto simp: size_adjustment_def Let_def split: option.splits)

lemma mspace_allocate_Some:
  assumes "mspace_allocate e sz m g = Inr (Some t, g1)"
  shows "t = next_addr g \<and> (\<exists>a. heap g1 = (heap g)(t \<mapsto> T_initialize t (sizeof_T e) a))"
proof -
  obtain sz1 g0 where sa: "size_adjustment sz m g = (sz1, g0)"
    by (cases "size_adjustment sz m g")
  then have al: "allocate e sz1 m g0 = Inr (Some t, g1)"
    using assms by (simp add: mspace_allocate_def)
  show ?thesis
    using allocate_Some [OF al] size_adjustment_state [OF sa] by auto
qed

lemma mspace_allocate_acquired_Some:
  assumes "mspace_allocate_acquired e sz m thr g = Inr (Some t, g1)"
  shows "t = next_addr g
    \<and> (\<exists>a. heap g1 = (heap g)(t \<mapsto> acquire thr (T_initialize t (sizeof_T e) a)))"
proof -
  obtain g0 where al: "mspace_allocate e sz m g = Inr (Some t, g0)"
    and md: "modify t (acquire thr) g0 = Inr g1"
    using assms
    by (auto simp: mspace_allocate_acquired_def and_then_def
        split: sum.splits prod.splits option.splits)
  obtain a where a: "t = next_addr g" "heap g0 = (heap g)(t \<mapsto> T_initialize t (sizeof_T e) a)"
    using mspace_allocate_Some [OF al] by blast
  have "heap g1 = (heap g)(t \<mapsto> acquire thr (T_initialize t (sizeof_T e) a))"
    using md a by (auto simp: modify_def)
  with a show ?thesis by blast
qed

lemma mspace_allocate_acquired_None:
  assumes "mspace_allocate_acquired e sz m thr g = Inr (None, g1)"
  shows "mspace_allocate e sz m g = Inr (None, g1)"
  using assms
  by (auto simp: mspace_allocate_acquired_def and_then_def
      split: sum.splits prod.splits option.splits)




lemma flags_after:
  "transient (set_lease b) = transient b" "lease (set_lease b)"
  "transient (set_transient b)" "lease (set_transient b) = lease b"
  "transient (acquire thr b) = transient b" "lease (acquire thr b) = lease b"
  "identity (acquire thr b) = Some thr" "identity (set_transient b) = identity b"
  "identity (set_lease b) = identity b"
  by (simp_all add: set_lease_def set_transient_def acquire_def)

lemmas lease_defs = mspace_get_free_lease_with_retry_def mspace_get_lease_def
  mspace_allocate_transient_to_full_def mspace_allocate_transient_def
  mspace_allocate_transient_lease_def mspace_allocate_acquired_def mspace_allocate_def
  size_adjustment_def get_free_lease_once_def set_lease_def acquired_by_self_def
  lock_def unlock_def Let_def

subsection \<open>Leases\<close>




subsection \<open>\<^verbatim>\<open>mspace_get_to_full\<close>\<close>

lemma mspace_allocate_to_full_Inr:
  assumes "mspace_allocate_to_full e sz m thr g = Inr (r, m', g')"
  shows "mspace_allocate_acquired e sz m thr g = Inr (r, g')
     \<and> (case r of
            None \<Rightarrow> m' = m \<and> mspace_allocate e sz m g = Inr (None, g')
          | Some t \<Rightarrow> m' = insert_full_head t m \<and> t = next_addr g
              \<and> (\<exists>a. heap g' = (heap g)(t \<mapsto> acquire thr (T_initialize t (sizeof_T e) a))))"
proof -
  have aa: "mspace_allocate_acquired e sz m thr g = Inr (r, g')"
    and m': "m' = (case r of None \<Rightarrow> m | Some t \<Rightarrow> insert_full_head t m)"
    using assms
    by (auto simp: mspace_allocate_to_full_def assert_at_def and_then_def
        split: if_splits sum.splits prod.splits option.splits)
  show ?thesis
  proof (cases r)
    case None
    then show ?thesis using aa m' mspace_allocate_acquired_None [of e sz m thr g g'] by simp
  next
    case (Some t)
    then show ?thesis using aa m' mspace_allocate_acquired_Some [of e sz m thr g t g'] by auto
  qed
qed

lemma mspace_get_free_to_full_Inr:
  assumes "mspace_get_free_to_full e sz m thr g = Inr (r, m', g')" "get_contract e"
  shows "mspace_get_free e sz m thr g = Inr (r, g')
     \<and> (case r of
            None \<Rightarrow> m' = m
          | Some t \<Rightarrow> in_list t (free_list m)
              \<and> m' = m\<lparr>free_list := remove t (free_list m), full_list := t # full_list m\<rparr>
              \<and> (\<exists>b. heap g' t = Some b \<and> identity b = Some thr))"
proof -
  have gf: "mspace_get_free e sz m thr g = Inr (r, g')"
    using assms(1)
    by (auto simp: mspace_get_free_to_full_def assert_at_def assert_buf_def and_then_def
        move_to_head_def split: if_splits sum.splits prod.splits option.splits)
  show ?thesis
  proof (cases r)
    case None
    then show ?thesis using assms(1) gf
      by (auto simp: mspace_get_free_to_full_def assert_at_def assert_buf_def and_then_def
          move_to_head_def split: if_splits sum.splits prod.splits option.splits)
  next
    case (Some t)
    then have c: "in_list t (free_list m) \<and> (\<exists>b. heap g' t = Some b \<and> identity b = Some thr)"
      using gf assms(2) unfolding get_contract_def mspace_get_free_def by blast
    have "m' = m\<lparr>free_list := remove t (free_list m), full_list := t # full_list m\<rparr>"
      using assms(1) Some
      by (auto simp: mspace_get_free_to_full_def assert_at_def assert_buf_def and_then_def
          move_to_head_def prepend_def split: if_splits sum.splits prod.splits option.splits)
    with c Some gf show ?thesis by simp
  qed
qed

lemma first_fit_member: "first_fit sz g ts = Some t \<Longrightarrow> t \<in> set ts"
  by (induction ts) (auto split: option.splits if_splits)

lemma get_first_fit_contract:
  assumes "get e = get_first_fit"
  shows "get_contract e"
  unfolding get_contract_def
proof (intro allI impI)
  fix sz thr m g t g1
  assume "get e sz thr m g = Inr (Some t, g1)"
  then have run: "get_first_fit sz thr m g = Inr (Some t, g1)"
    using assms by simp
  then have ff: "first_fit sz g (free_list m) = Some t"
    by (auto simp: get_first_fit_def and_then_def split: option.splits sum.splits)
  then obtain b where b: "heap g t = Some b"
    using first_fit_live [of sz g "free_list m" t] by auto
  then have "heap g1 t = Some (acquire thr b)"
    using run ff by (auto simp: get_first_fit_def and_then_def modify_def)
  then show "in_list t (free_list m) \<and> (\<exists>b. heap g1 t = Some b \<and> identity b = Some thr)"
    using first_fit_member [OF ff] by (simp add: in_list_def flags_after)
qed

lemmas to_full_defs = mspace_get_to_full_def mspace_get_free_to_full_def
  mspace_allocate_to_full_def move_to_head_def remove_def in_list_def is_locked_def

lemma allocate_product_total:
  assumes "\<not> ASSERT e" "0 < min_elem_size m"
  shows "\<exists>r g1. allocate e sz m g = Inr (r, g1)"
proof -
  have "\<exists>a. align_allocation_size e sz (min_elem_size m) = Inr a"
  proof (cases "sz \<le> min_intx")
    case True
    then obtain a where "align_loop sz (min_elem_size m) = Some a"
      using align_loop_total [OF assms(2)] by blast
    then show ?thesis using True assms(1)
      by (simp add: align_allocation_size_def assert_at_def not_less [symmetric])
  next
    case False
    then show ?thesis using assms(1)
      by (simp add: align_allocation_size_def assert_at_def not_le)
  qed
  then show ?thesis
    by (auto simp: allocate_def and_then_def split: prod.splits option.splits)
qed

lemma mspace_allocate_acquired_product_total:
  assumes "\<not> ASSERT e" "0 < min_elem_size m"
  shows "\<exists>r g1. mspace_allocate_acquired e sz m thr g = Inr (r, g1)"
proof -
  obtain sz1 g0 where sa: "size_adjustment sz m g = (sz1, g0)"
    by (cases "size_adjustment sz m g")
  obtain r g1 where al: "allocate e sz1 m g0 = Inr (r, g1)"
    using allocate_product_total [OF assms] by blast
  then have ma: "mspace_allocate e sz m g = Inr (r, g1)"
    using sa by (simp add: mspace_allocate_def)
  show ?thesis
  proof (cases r)
    case None
    then show ?thesis using ma by (simp add: mspace_allocate_acquired_def and_then_def)
  next
    case (Some t)
    then obtain b where "heap g1 t = Some b"
      using allocate_Some [of e sz1 m g0 t g1] al by auto
    then show ?thesis using ma Some
      by (simp add: mspace_allocate_acquired_def and_then_def modify_def)
  qed
qed

lemma mspace_get_to_full_product_total:
  assumes "\<not> ASSERT e" "0 < min_elem_size m"
    "\<forall>sz0 m0 g0. \<exists>res. get e sz0 thr m0 g0 = Inr res"
  shows "\<exists>r m' g'. mspace_get_to_full e sz m thr g = Inr (r, m', g')"
proof -
  obtain sz1 g1 where sa: "size_adjustment sz m g = (sz1, g1)"
    by (cases "size_adjustment sz m g")
  have alloc: "\<exists>r m' g'. mspace_allocate_to_full e sz1 (lock m) thr g2 = Inr (r, m', g')" for g2
    using mspace_allocate_acquired_product_total [of e "lock m" sz1 thr g2] assms(1,2)
    by (auto simp: mspace_allocate_to_full_def assert_at_def and_then_def lock_def
        split: option.splits)
  show ?thesis
  proof (cases "sz1 \<le> min_elem_size (lock m)")
    case False
    then show ?thesis using sa alloc [of g1]
      by (auto simp: mspace_get_to_full_def Let_def and_then_def)
  next
    case True
    obtain r g2 where gf: "get e sz1 thr (lock m) g1 = Inr (r, g2)"
      using assms(3) by (metis surj_pair)
    show ?thesis
    proof (cases r)
      case None
      then have "mspace_get_free_to_full e sz1 (lock m) thr g1 = Inr (None, lock m, g2)"
        using gf assms(1)
        by (simp add: mspace_get_free_to_full_def assert_at_def and_then_def mspace_get_free_def)
      then show ?thesis using sa True alloc [of g2]
        by (auto simp: mspace_get_to_full_def Let_def and_then_def)
    next
      case (Some t)
      then have "\<exists>m2. mspace_get_free_to_full e sz1 (lock m) thr g1 = Inr (Some t, m2, g2)"
        using gf assms(1)
        by (simp add: mspace_get_free_to_full_def assert_at_def assert_buf_def and_then_def
            mspace_get_free_def move_to_head_def)
      then show ?thesis using sa True
        by (auto simp: mspace_get_to_full_def Let_def and_then_def)
    qed
  qed
qed

lemma get_first_fit_total: "\<exists>res. get_first_fit sz thr m g = Inr res"
proof (cases "first_fit sz g (free_list m)")
  case None
  then show ?thesis by (simp add: get_first_fit_def)
next
  case (Some t)
  then obtain b where "heap g t = Some b"
    using first_fit_live [of sz g "free_list m" t] by auto
  then show ?thesis using Some
    by (simp add: get_first_fit_def modify_def and_then_def)
qed

text \<open>
  C6. Let \<open>sz1\<close> be the size that \<^verbatim>\<open>size_adjustment\<close> gives and \<open>g1\<close> the state it leaves.
  For a retrieval policy that keeps the contract of \<^verbatim>\<open>mspace_get_free\<close>, where
  \<^verbatim>\<open>mspace_get_to_full\<close> returns:

  \<^item> a buffer it returns is at the head of the full list and is acquired by the thread, and
    either \<open>sz1\<close> is at most \<open>min_elem_size\<close>, the call of \<^verbatim>\<open>mspace_get_free\<close> in \<open>g1\<close>
    returned this buffer, it was in the free list and is no longer, and the pool is the
    one before with the buffer moved and the lock released;
    or the free list was not asked (\<open>sz1\<close> above \<open>min_elem_size\<close>) or
    \<^verbatim>\<open>mspace_get_free\<close> returned \<^verbatim>\<open>NULL\<close>, the call of \<^verbatim>\<open>mspace_allocate_acquired\<close>
    that followed returned this buffer, it is the address that the heap gave next and is
    a freshly initialised buffer acquired by the thread, the pool is the one before with
    the buffer put at the head of the full list and the lock released, and the buffer is
    not in the free list when the free list holds addresses the heap gave earlier;
  \<^item> \<^verbatim>\<open>NULL\<close> is returned only when the free list was not asked or gave \<^verbatim>\<open>NULL\<close>, and
    the call of \<^verbatim>\<open>mspace_allocate\<close> that followed, in the state then reached, returned
    \<^verbatim>\<open>NULL\<close>; the pool is the one before with the lock released;
  \<^item> the lock is released.

  In the product build, on a pool with a positive \<open>min_elem_size\<close> and with a retrieval
  policy that returns, \<^verbatim>\<open>mspace_get_to_full\<close> returns.
\<close>

theorem mspace_get_to_full_result:
  "(get_contract e \<and> size_adjustment sz m g = (sz1, g1)
      \<and> mspace_get_to_full e sz m thr g = Inr (r, m', g') \<longrightarrow>
     (\<forall>t. r = Some t \<longrightarrow>
        in_list t (full_list m') \<and> full_list m' = t # full_list m
        \<and> (\<exists>b. heap g' t = Some b \<and> identity b = Some thr)
        \<and> (sz1 \<le> min_elem_size m
             \<and> mspace_get_free e sz1 (lock m) thr g1 = Inr (Some t, g')
             \<and> in_list t (free_list m) \<and> \<not> in_list t (free_list m')
             \<and> m' = m\<lparr>free_list := remove t (free_list m), full_list := t # full_list m,
                      locked := False\<rparr>
           \<or> (\<exists>g2. (min_elem_size m < sz1 \<and> g2 = g1
                     \<or> sz1 \<le> min_elem_size m
                       \<and> mspace_get_free e sz1 (lock m) thr g1 = Inr (None, g2))
                \<and> mspace_allocate_acquired e sz1 (lock m) thr g2 = Inr (Some t, g')
                \<and> t = next_addr g2
                \<and> (\<exists>a. heap g' = (heap g2)(t \<mapsto> acquire thr (T_initialize t (sizeof_T e) a)))
                \<and> m' = m\<lparr>full_list := t # full_list m, locked := False\<rparr>
                \<and> ((\<forall>x\<in>set (free_list m). x < next_addr g2)
                     \<longrightarrow> \<not> in_list t (free_list m')))))
     \<and> (r = None \<longrightarrow>
          (\<exists>g2. (min_elem_size m < sz1 \<and> g2 = g1
                  \<or> sz1 \<le> min_elem_size m
                    \<and> mspace_get_free e sz1 (lock m) thr g1 = Inr (None, g2))
             \<and> mspace_allocate e sz1 (lock m) g2 = Inr (None, g')
             \<and> m' = m\<lparr>locked := False\<rparr>))
     \<and> \<not> is_locked m')
   \<and> (\<not> ASSERT e \<and> 0 < min_elem_size m
        \<and> (\<forall>sz0 m0 g0. \<exists>res. get e sz0 thr m0 g0 = Inr res)
       \<longrightarrow> (\<exists>r1 m1 g3. mspace_get_to_full e sz m thr g = Inr (r1, m1, g3)))"
proof (rule conjI)
  show "get_contract e \<and> size_adjustment sz m g = (sz1, g1)
      \<and> mspace_get_to_full e sz m thr g = Inr (r, m', g') \<longrightarrow>
     (\<forall>t. r = Some t \<longrightarrow>
        in_list t (full_list m') \<and> full_list m' = t # full_list m
        \<and> (\<exists>b. heap g' t = Some b \<and> identity b = Some thr)
        \<and> (sz1 \<le> min_elem_size m
             \<and> mspace_get_free e sz1 (lock m) thr g1 = Inr (Some t, g')
             \<and> in_list t (free_list m) \<and> \<not> in_list t (free_list m')
             \<and> m' = m\<lparr>free_list := remove t (free_list m), full_list := t # full_list m,
                      locked := False\<rparr>
           \<or> (\<exists>g2. (min_elem_size m < sz1 \<and> g2 = g1
                     \<or> sz1 \<le> min_elem_size m
                       \<and> mspace_get_free e sz1 (lock m) thr g1 = Inr (None, g2))
                \<and> mspace_allocate_acquired e sz1 (lock m) thr g2 = Inr (Some t, g')
                \<and> t = next_addr g2
                \<and> (\<exists>a. heap g' = (heap g2)(t \<mapsto> acquire thr (T_initialize t (sizeof_T e) a)))
                \<and> m' = m\<lparr>full_list := t # full_list m, locked := False\<rparr>
                \<and> ((\<forall>x\<in>set (free_list m). x < next_addr g2)
                     \<longrightarrow> \<not> in_list t (free_list m')))))
     \<and> (r = None \<longrightarrow>
          (\<exists>g2. (min_elem_size m < sz1 \<and> g2 = g1
                  \<or> sz1 \<le> min_elem_size m
                    \<and> mspace_get_free e sz1 (lock m) thr g1 = Inr (None, g2))
             \<and> mspace_allocate e sz1 (lock m) g2 = Inr (None, g')
             \<and> m' = m\<lparr>locked := False\<rparr>))
     \<and> \<not> is_locked m'"
  proof
    assume h: "get_contract e \<and> size_adjustment sz m g = (sz1, g1)
      \<and> mspace_get_to_full e sz m thr g = Inr (r, m', g')"
    define first where "first =
      (if sz1 \<le> min_elem_size (lock m) then mspace_get_free_to_full e sz1 (lock m) thr g1
       else Inr (None, lock m, g1))"
    have run: "and_then (and_then first (\<lambda>(r, m2, g2). case r of
          Some t \<Rightarrow> Inr (Some t, m2, g2)
        | None \<Rightarrow> mspace_allocate_to_full e sz1 m2 thr g2))
        (\<lambda>(r, m3, g3). Inr (r, unlock m3, g3)) = Inr (r, m', g')"
    proof -
      have sa: "size_adjustment sz m g = (sz1, g1)"
        and rn: "mspace_get_to_full e sz m thr g = Inr (r, m', g')"
        using h by simp_all
      show ?thesis
        using rn by (simp add: mspace_get_to_full_def sa first_def Let_def)
    qed
    then obtain r1 m2 g2 where f: "first = Inr (r1, m2, g2)"
      by (cases first) (auto simp: and_then_def)
    have f1: "case r1 of
              None \<Rightarrow> m2 = lock m
                \<and> (min_elem_size m < sz1 \<and> g2 = g1
                    \<or> sz1 \<le> min_elem_size m
                      \<and> mspace_get_free e sz1 (lock m) thr g1 = Inr (None, g2))
            | Some t \<Rightarrow> sz1 \<le> min_elem_size m
                \<and> mspace_get_free e sz1 (lock m) thr g1 = Inr (Some t, g2)
                \<and> in_list t (free_list m)
                \<and> m2 = (lock m)\<lparr>free_list := remove t (free_list m),
                      full_list := t # full_list m\<rparr>
                \<and> (\<exists>b. heap g2 t = Some b \<and> identity b = Some thr)"
    proof (cases "sz1 \<le> min_elem_size (lock m)")
      case True
      then have "mspace_get_free_to_full e sz1 (lock m) thr g1 = Inr (r1, m2, g2)"
        using f by (simp add: first_def)
      from mspace_get_free_to_full_Inr [OF this] h True show ?thesis
        by (cases r1) (simp_all add: lock_def)
    next
      case False
      then show ?thesis using f by (auto simp: first_def lock_def)
    qed
    show "(\<forall>t. r = Some t \<longrightarrow>
        in_list t (full_list m') \<and> full_list m' = t # full_list m
        \<and> (\<exists>b. heap g' t = Some b \<and> identity b = Some thr)
        \<and> (sz1 \<le> min_elem_size m
             \<and> mspace_get_free e sz1 (lock m) thr g1 = Inr (Some t, g')
             \<and> in_list t (free_list m) \<and> \<not> in_list t (free_list m')
             \<and> m' = m\<lparr>free_list := remove t (free_list m), full_list := t # full_list m,
                      locked := False\<rparr>
           \<or> (\<exists>g2. (min_elem_size m < sz1 \<and> g2 = g1
                     \<or> sz1 \<le> min_elem_size m
                       \<and> mspace_get_free e sz1 (lock m) thr g1 = Inr (None, g2))
                \<and> mspace_allocate_acquired e sz1 (lock m) thr g2 = Inr (Some t, g')
                \<and> t = next_addr g2
                \<and> (\<exists>a. heap g' = (heap g2)(t \<mapsto> acquire thr (T_initialize t (sizeof_T e) a)))
                \<and> m' = m\<lparr>full_list := t # full_list m, locked := False\<rparr>
                \<and> ((\<forall>x\<in>set (free_list m). x < next_addr g2)
                     \<longrightarrow> \<not> in_list t (free_list m')))))
     \<and> (r = None \<longrightarrow>
          (\<exists>g2. (min_elem_size m < sz1 \<and> g2 = g1
                  \<or> sz1 \<le> min_elem_size m
                    \<and> mspace_get_free e sz1 (lock m) thr g1 = Inr (None, g2))
             \<and> mspace_allocate e sz1 (lock m) g2 = Inr (None, g')
             \<and> m' = m\<lparr>locked := False\<rparr>))
     \<and> \<not> is_locked m'"
    proof (cases r1)
      case (Some t)
      then have rs: "r = Some t" "m' = unlock m2" "g' = g2"
        using run f by (auto simp: and_then_def)
      have a: "sz1 \<le> min_elem_size m"
        "mspace_get_free e sz1 (lock m) thr g1 = Inr (Some t, g')"
        "in_list t (free_list m)"
        "m' = m\<lparr>free_list := remove t (free_list m), full_list := t # full_list m,
                locked := False\<rparr>"
        "\<exists>b. heap g' t = Some b \<and> identity b = Some thr"
        using f1 Some rs by (simp_all add: lock_def unlock_def)
      have b: "\<not> in_list t (free_list m')" "in_list t (full_list m')"
        "full_list m' = t # full_list m" "\<not> is_locked m'"
        using a(4) by (simp_all add: in_list_def remove_def is_locked_def)
      show ?thesis using rs(1) a b by simp
    next
      case None
      then have m2: "m2 = lock m"
        and fl: "min_elem_size m < sz1 \<and> g2 = g1
                    \<or> sz1 \<le> min_elem_size m
                      \<and> mspace_get_free e sz1 (lock m) thr g1 = Inr (None, g2)"
        using f1 by simp_all
      obtain m3 where al: "mspace_allocate_to_full e sz1 (lock m) thr g2 = Inr (r, m3, g')"
        and m': "m' = unlock m3"
        using run f None m2 by (auto simp: and_then_def split: sum.splits)
      note A = mspace_allocate_to_full_Inr [OF al]
      show ?thesis
      proof (cases r)
        case None
        then have "mspace_allocate e sz1 (lock m) g2 = Inr (None, g')" "m3 = lock m"
          using A by simp_all
        then have "mspace_allocate e sz1 (lock m) g2 = Inr (None, g')"
          "m' = m\<lparr>locked := False\<rparr>" "\<not> is_locked m'"
          using m' by (simp_all add: unlock_def lock_def is_locked_def)
        then show ?thesis using None fl by blast
      next
        case (Some t)
        then obtain a where aa: "mspace_allocate_acquired e sz1 (lock m) thr g2 = Inr (Some t, g')"
          and m3: "m3 = insert_full_head t (lock m)"
          and t: "t = next_addr g2"
          and hp: "heap g' = (heap g2)(t \<mapsto> acquire thr (T_initialize t (sizeof_T e) a))"
          using A by auto
        have mm: "m' = m\<lparr>full_list := t # full_list m, locked := False\<rparr>"
          using m' m3 by (simp add: unlock_def lock_def insert_full_head_def prepend_def)
        have b: "in_list t (full_list m')" "full_list m' = t # full_list m" "\<not> is_locked m'"
          "\<exists>b. heap g' t = Some b \<and> identity b = Some thr"
          "(\<forall>x\<in>set (free_list m). x < next_addr g2) \<longrightarrow> \<not> in_list t (free_list m')"
          using mm hp t by (auto simp: in_list_def is_locked_def flags_after)
        have "\<exists>g2. (min_elem_size m < sz1 \<and> g2 = g1
                     \<or> sz1 \<le> min_elem_size m
                       \<and> mspace_get_free e sz1 (lock m) thr g1 = Inr (None, g2))
                \<and> mspace_allocate_acquired e sz1 (lock m) thr g2 = Inr (Some t, g')
                \<and> t = next_addr g2
                \<and> (\<exists>a. heap g' = (heap g2)(t \<mapsto> acquire thr (T_initialize t (sizeof_T e) a)))
                \<and> m' = m\<lparr>full_list := t # full_list m, locked := False\<rparr>
                \<and> ((\<forall>x\<in>set (free_list m). x < next_addr g2)
                     \<longrightarrow> \<not> in_list t (free_list m'))"
          using fl aa t hp mm b(5) by blast
        then show ?thesis using Some b(1-4) by simp
      qed
    qed
  qed
  show "\<not> ASSERT e \<and> 0 < min_elem_size m
        \<and> (\<forall>sz0 m0 g0. \<exists>res. get e sz0 thr m0 g0 = Inr res)
       \<longrightarrow> (\<exists>r1 m1 g3. mspace_get_to_full e sz m thr g = Inr (r1, m1, g3))"
    using mspace_get_to_full_product_total [of e m thr sz g] by blast
qed

theorem mspace_get_to_full_result_witness:
  "(\<exists>m' g' b. mspace_get_to_full debug_build 100 both_free 1 two_buffers = Inr (Some 4096, m', g')
       \<and> mspace_get_free debug_build 4096 (lock both_free) 1
           (two_buffers\<lparr>size_adjustment_static := Some 4096\<rparr>) = Inr (Some 4096, g')
       \<and> full_list m' = [4096] \<and> free_list m' = [8256]
       \<and> heap g' 4096 = Some b \<and> identity b = Some 1 \<and> \<not> is_locked m')
   \<and> (\<exists>m' g' g2 b. mspace_get_to_full debug_build 100 (JfrMemorySpace 4096 8192 2) 1
          (fresh_process []) = Inr (Some 4096, m', g')
       \<and> mspace_get_free debug_build 4096 (lock (JfrMemorySpace 4096 8192 2)) 1
           ((fresh_process [])\<lparr>size_adjustment_static := Some 4096\<rparr>) = Inr (None, g2)
       \<and> mspace_allocate_acquired debug_build 4096 (lock (JfrMemorySpace 4096 8192 2)) 1 g2
           = Inr (Some 4096, g')
       \<and> full_list m' = [4096] \<and> free_list m' = []
       \<and> heap g' 4096 = Some b \<and> identity b = Some 1 \<and> \<not> is_locked m')
   \<and> (\<exists>m' g' g2. mspace_get_to_full debug_build 100 (JfrMemorySpace 4096 8192 2) 1
          (fresh_process [False]) = Inr (None, m', g')
       \<and> mspace_get_free debug_build 4096 (lock (JfrMemorySpace 4096 8192 2)) 1
           ((fresh_process [False])\<lparr>size_adjustment_static := Some 4096\<rparr>) = Inr (None, g2)
       \<and> mspace_allocate debug_build 4096 (lock (JfrMemorySpace 4096 8192 2)) g2
           = Inr (None, g')
       \<and> m' = JfrMemorySpace 4096 8192 2)
   \<and> (\<exists>m' g'. mspace_get_to_full debug_build 5000 both_free 1 two_buffers
          = Inr (Some 12416, m', g')
       \<and> mspace_allocate_acquired debug_build 5000 (lock both_free) 1
           (two_buffers\<lparr>size_adjustment_static := Some 4096\<rparr>) = Inr (Some 12416, g')
       \<and> full_list m' = [12416] \<and> \<not> in_list 12416 (free_list m'))
   \<and> (\<exists>r m' g'. mspace_get_to_full product_build 5000 both_free 1 two_buffers = Inr (r, m', g'))"
proof -
  let ?M = "JfrMemorySpace 4096 8192 2"
  let ?G1 = "two_buffers\<lparr>size_adjustment_static := Some 4096\<rparr>"
  let ?G2 = "(fresh_process [])\<lparr>size_adjustment_static := Some 4096\<rparr>"
  let ?G3 = "(fresh_process [False])\<lparr>size_adjustment_static := Some 4096\<rparr>"
  have tot: "\<not> ASSERT product_build" "0 < min_elem_size both_free"
    "\<forall>sz0 m0 g0. \<exists>res. get product_build sz0 1 m0 g0 = Inr res"
    using get_first_fit_total by (simp_all add: product_build_def both_free_def)
  note T4 = mspace_get_to_full_result [of product_build 5000 both_free two_buffers _ _ 1]
  have c4: "\<exists>r m' g'. mspace_get_to_full product_build 5000 both_free 1 two_buffers
      = Inr (r, m', g')"
    using T4 tot by blast
  have c: "get_contract debug_build"
    by (rule get_first_fit_contract) (simp add: debug_build_def product_build_def)
  have sa: "size_adjustment 100 both_free two_buffers = (4096, ?G1)"
    "size_adjustment 100 ?M (fresh_process []) = (4096, ?G2)"
    "size_adjustment 100 ?M (fresh_process [False]) = (4096, ?G3)"
    "size_adjustment 5000 both_free two_buffers = (5000, ?G1)"
    by (simp_all add: size_adjustment_def both_free_def two_buffers_def fresh_process_def
        JfrMemorySpace_def)
  have sz: "\<not> min_elem_size both_free < 4096" "\<not> min_elem_size ?M < 4096"
    "\<not> 5000 \<le> min_elem_size both_free"
    "\<forall>x\<in>set (free_list both_free). x < next_addr ?G1"
    by (simp_all add: both_free_def two_buffers_def JfrMemorySpace_def)
  obtain m1 g1 where r1: "mspace_get_to_full debug_build 100 both_free 1 two_buffers
      = Inr (Some 4096, m1, g1)" and v1: "free_list m1 = [8256]"
    by (simp add: run_defs retry_defs lease_defs to_full_defs)
  obtain m2 g2 where r2: "mspace_get_to_full debug_build 100 ?M 1
      (fresh_process []) = Inr (Some 4096, m2, g2)" and v2: "free_list m2 = []"
    by (simp add: run_defs retry_defs lease_defs to_full_defs)
  obtain m3 g3 where r3: "mspace_get_to_full debug_build 100 ?M 1
      (fresh_process [False]) = Inr (None, m3, g3)"
    by (simp add: run_defs retry_defs lease_defs to_full_defs)
  obtain m5 g5 where r5: "mspace_get_to_full debug_build 5000 both_free 1 two_buffers
      = Inr (Some 12416, m5, g5)"
    by (simp add: run_defs retry_defs lease_defs to_full_defs)
  have f: "full_list both_free = []" "full_list ?M = []" "?M\<lparr>locked := False\<rparr> = ?M"
    by (simp_all add: both_free_def JfrMemorySpace_def)
  note T1 = mspace_get_to_full_result
    [of debug_build 100 both_free two_buffers 4096 ?G1 1 "Some 4096" m1 g1]
  note T2 = mspace_get_to_full_result
    [of debug_build 100 ?M "fresh_process []" 4096 ?G2 1 "Some 4096" m2 g2]
  note T3 = mspace_get_to_full_result
    [of debug_build 100 ?M "fresh_process [False]" 4096 ?G3 1 None m3 g3]
  note T5 = mspace_get_to_full_result
    [of debug_build 5000 both_free two_buffers 5000 ?G1 1 "Some 12416" m5 g5]
  have d1: "mspace_get_free debug_build 4096 (lock both_free) 1 ?G1 = Inr (Some 4096, g1)
        \<or> (\<exists>g2. (min_elem_size both_free < 4096 \<and> g2 = ?G1
               \<or> 4096 \<le> min_elem_size both_free
                 \<and> mspace_get_free debug_build 4096 (lock both_free) 1 ?G1 = Inr (None, g2))
             \<and> free_list m1 = free_list (both_free\<lparr>full_list := 4096 # full_list both_free,
                   locked := False\<rparr>))"
    using T1 c sa(1) r1 by auto
  have "free_list m1 \<noteq> free_list (both_free\<lparr>full_list := 4096 # full_list both_free,
                   locked := False\<rparr>)"
    using v1 by (simp add: both_free_def)
  then have e1: "mspace_get_free debug_build 4096 (lock both_free) 1 ?G1 = Inr (Some 4096, g1)"
    using d1 by blast
  have c1: "\<exists>b. full_list m1 = [4096] \<and> heap g1 4096 = Some b \<and> identity b = Some 1
      \<and> \<not> is_locked m1"
    using T1 c sa(1) r1 f by auto
  have "\<not> in_list 4096 (free_list ?M)"
    by (simp add: in_list_def JfrMemorySpace_def)
  then have e2: "\<exists>g4. mspace_get_free debug_build 4096 (lock ?M) 1 ?G2 = Inr (None, g4)
      \<and> mspace_allocate_acquired debug_build 4096 (lock ?M) 1 g4 = Inr (Some 4096, g2)"
    using T2 c sa(2) r2 sz(2) by auto
  have c2: "\<exists>b. full_list m2 = [4096] \<and> heap g2 4096 = Some b \<and> identity b = Some 1
      \<and> \<not> is_locked m2"
    using T2 c sa(2) r2 f by auto
  have c3: "\<exists>g4. mspace_get_free debug_build 4096 (lock ?M) 1 ?G3 = Inr (None, g4)
      \<and> mspace_allocate debug_build 4096 (lock ?M) g4 = Inr (None, g3)
      \<and> m3 = ?M"
    using T3 c sa(3) r3 sz(2) f(3) by auto
  have c5: "mspace_allocate_acquired debug_build 5000 (lock both_free) 1 ?G1
        = Inr (Some 12416, g5)
      \<and> full_list m5 = [12416] \<and> \<not> in_list 12416 (free_list m5)"
    using T5 c sa(4) r5 sz(3,4) f(1) by auto
  show ?thesis
    using r1 e1 v1 c1 r2 e2 v2 c2 r3 c3 r5 c5 c4 by blast
qed

subsection \<open>\<^verbatim>\<open>mspace_allocate\<close> and the static of \<^verbatim>\<open>size_adjustment\<close>\<close>

text \<open>
  C8. Two pools of one type, the first with \<open>min_elem_size = 8192\<close>, the second with
  \<open>min_elem_size = 4096\<close>. \<^verbatim>\<open>mspace_allocate(0, first)\<close> initialises the static of
  \<^verbatim>\<open>size_adjustment\<close> with 8192. Then \<^verbatim>\<open>mspace_allocate(0, second)\<close> clamps the
  size to 8192, not to 4096, and returns a buffer of capacity 8192, where
  \<^verbatim>\<open>allocate\<close> on the size clamped to the second pool's minimum gives capacity 4096.
\<close>

theorem mspace_allocate_reads_stale_static:
  "\<exists>g1 g2 b. mspace_allocate debug_build 0 (JfrMemorySpace 8192 16384 0) (fresh_process [])
        = Inr (Some 4096, g1)
     \<and> size_adjustment_static g1 = Some 8192
     \<and> size_adjustment 0 (JfrMemorySpace 4096 8192 0) g1 = (8192, g1)
     \<and> mspace_allocate debug_build 0 (JfrMemorySpace 4096 8192 0) g1 = Inr (Some 12352, g2)
     \<and> heap g2 12352 = Some b \<and> capacity b = 8192
     \<and> (\<exists>g3 b'. allocate debug_build (max 0 (min_elem_size (JfrMemorySpace 4096 8192 0)))
                   (JfrMemorySpace 4096 8192 0) g1 = Inr (Some 12352, g3)
           \<and> heap g3 12352 = Some b' \<and> capacity b' = 4096)"
  by (simp add: run_defs lease_defs T_initialize_def)

end
